theory Spec2Isabelle
  imports Complex_Main "HOL-Library.AList" "HOL-Library.Word"
begin

section \<open>Python values and exceptions\<close>

text \<open>
  The HID mixin and the QDAC driver are embedded as pure functions over explicit state. Python \<open>int\<close> is
  \<open>int\<close>; Python \<open>float\<close> is idealised as \<open>real\<close> (exact arithmetic, no rounding, no
  infinities, no NaN); \<open>str\<close> is \<open>string\<close>; \<open>bytes\<close> is a list of 8-bit words. An
  insertion-ordered \<open>dict\<close> is an association list maintained with \<open>AList.update\<close>
  (replace in place, else append) and \<open>AList.delete\<close>. Every \<open>raise\<close> is a value
  \<open>Inl e\<close>; the state reached when the exception leaves the function is returned with it,
  because Python keeps the mutations done before a raise.
\<close>

datatype errmsg =
    ChannelInBothGroups       \<comment> \<open>'Channel cannot be in both slow_chans and fast_chans!'\<close>
  | VoltageCountMismatch      \<comment> \<open>'Number of channels and number of voltages inconsistent!'\<close>
  | StartCountMismatch        \<comment> \<open>'Number of start voltages do not match number of channels!'\<close>
  | ChannelNumberOutOfRange   \<comment> \<open>'Channel number must be 1-N.'\<close>
  | NotInValidatorRange       \<comment> \<open>raised by \<open>vals.Numbers.validate\<close> / \<open>vals.Ints.validate\<close>\<close>
  | NonZeroVoltage            \<comment> \<open>\<open>NON_ZERO_VOLTAGE_MSG\<close>\<close>
  | NoGeneratorAvailable      \<comment> \<open>'Trying to ramp more channels than there are generators available ...'\<close>
  | EmptyMin                  \<comment> \<open>\<open>min()\<close> of an empty collection\<close>
  | BadNumber                 \<comment> \<open>\<open>float(s)\<close> or \<open>int(s)\<close> on a string that is not a number\<close>
  | BadUnpack                 \<comment> \<open>tuple unpacking of the wrong number of values\<close>
  | DataTooLong               \<comment> \<open>'Length of data exceeds N B'\<close>
  | CommunicationFailed       \<comment> \<open>'Communication with device failed'\<close>
  | NegativeSamples           \<comment> \<open>numpy: 'Number of samples, N, must be non-negative.'\<close>

datatype exn =
    ValueError errmsg
  | RuntimeError errmsg
  | KeyError
  | IndexError
  | VisaIOError
  | TimeoutError
  | StructError
  | OverflowError

type_synonym ('a, 's) outcome = "(exn + 'a) \<times> 's"

definition returns :: "'a \<Rightarrow> 's \<Rightarrow> ('a, 's) outcome" where
  "returns a s = (Inr a, s)"

definition raises :: "exn \<Rightarrow> 's \<Rightarrow> ('a, 's) outcome" where
  "raises e s = (Inl e, s)"

text \<open>Sequencing: the second statement runs only when the first did not raise.\<close>

definition andthen ::
  "('s \<Rightarrow> ('a, 's) outcome) \<Rightarrow> ('a \<Rightarrow> 's \<Rightarrow> ('b, 's) outcome) \<Rightarrow> 's \<Rightarrow> ('b, 's) outcome" where
  "andthen m f s = (case m s of (Inl e, s') \<Rightarrow> (Inl e, s') | (Inr a, s') \<Rightarrow> f a s')"

text \<open>\<open>for x in xs: body(x)\<close>; the loop stops at the first exception.\<close>

primrec for_each :: "('a \<Rightarrow> 's \<Rightarrow> (unit, 's) outcome) \<Rightarrow> 'a list \<Rightarrow> 's \<Rightarrow> (unit, 's) outcome" where
  "for_each body [] = returns ()"
| "for_each body (x # xs) = andthen (body x) (\<lambda>_. for_each body xs)"

text \<open>A list comprehension \<open>[f(x) for x in xs]\<close> whose element expression has effects.\<close>

primrec map_each :: "('a \<Rightarrow> 's \<Rightarrow> ('b, 's) outcome) \<Rightarrow> 'a list \<Rightarrow> 's \<Rightarrow> ('b list, 's) outcome" where
  "map_each f [] = returns []"
| "map_each f (x # xs) =
     andthen (f x) (\<lambda>y. andthen (map_each f xs) (\<lambda>ys. returns (y # ys)))"

text \<open>A loop that threads a local accumulator (\<open>msg += ...\<close>) next to the object state.\<close>

primrec fold_each ::
  "('a \<Rightarrow> 'b \<Rightarrow> 's \<Rightarrow> ('b, 's) outcome) \<Rightarrow> 'a list \<Rightarrow> 'b \<Rightarrow> 's \<Rightarrow> ('b, 's) outcome" where
  "fold_each body [] acc = returns acc"
| "fold_each body (x # xs) acc = andthen (body x acc) (\<lambda>acc'. fold_each body xs acc')"

text \<open>\<open>int(x)\<close> on a float truncates toward zero.\<close>

definition py_int :: "real \<Rightarrow> int" where
  "py_int x = (if 0 \<le> x then \<lfloor>x\<rfloor> else \<lceil>x\<rceil>)"

text \<open>\<open>'{}'.format(n)\<close> for an \<open>int\<close>: decimal digits, a minus sign when negative.\<close>

fun str_nat :: "nat \<Rightarrow> string" where
  "str_nat n =
     (if n < 10 then [''0123456789'' ! n]
      else str_nat (n div 10) @ [''0123456789'' ! (n mod 10)])"

declare str_nat.simps [simp del]

definition str_int :: "int \<Rightarrow> string" where
  "str_int i = (if i < 0 then CHR ''-'' # str_nat (nat (- i)) else str_nat (nat i))"

text \<open>\<open>s.split(c)\<close> with an explicit one-character separator.\<close>

primrec split_on :: "char \<Rightarrow> string \<Rightarrow> string list" where
  "split_on c [] = [[]]"
| "split_on c (x # xs) =
     (if x = c then [] # split_on c xs
      else (case split_on c xs of [] \<Rightarrow> [[x]] | y # ys \<Rightarrow> (x # y) # ys))"

text \<open>
  Conversions between floats and text are Python built-ins outside the repository. They
  are parameters of the model: \<open>fmt\<close> is \<open>'{}'.format(x)\<close>, \<open>fmt_6f\<close> is
  \<open>'{:.6f}'.format(x)\<close>, \<open>to_float\<close> is \<open>float(s)\<close> and \<open>to_int\<close> is \<open>int(s)\<close>, with
  \<open>None\<close> where Python raises \<open>ValueError\<close>. Every theorem holds for all conversions.

  So are the float operations of the ramp functions, which round and can overflow:
  \<open>int_times_1000 x\<close> is \<open>int(x*1000)\<close>, with \<open>None\<close> where the product is infinite and
  \<open>int\<close> raises \<open>OverflowError\<close>; \<open>div_1000 n\<close> is \<open>n / 1000\<close> for an \<open>int\<close> \<open>n\<close>, with
  \<open>None\<close> where the quotient is too large for a float and the division raises
  \<open>OverflowError\<close>; \<open>fsub a b\<close> is \<open>a - b\<close> and \<open>fadd a b\<close> is \<open>a + b\<close> on floats.
\<close>

record pyconv =
  fmt :: "real \<Rightarrow> string"
  fmt_6f :: "real \<Rightarrow> string"
  to_float :: "string \<Rightarrow> real option"
  to_int :: "string \<Rightarrow> int option"
  int_times_1000 :: "real \<Rightarrow> int option"
  div_1000 :: "int \<Rightarrow> real option"
  fsub :: "real \<Rightarrow> real \<Rightarrow> real"
  fadd :: "real \<Rightarrow> real \<Rightarrow> real"

text \<open>The two operations that may raise, as statements.\<close>

definition ms_of :: "pyconv \<Rightarrow> real \<Rightarrow> 's \<Rightarrow> (int, 's) outcome" where
  "ms_of py x =
     (case int_times_1000 py x of None \<Rightarrow> raises OverflowError | Some n \<Rightarrow> returns n)"

definition seconds_of :: "pyconv \<Rightarrow> int \<Rightarrow> 's \<Rightarrow> (real, 's) outcome" where
  "seconds_of py n =
     (case div_1000 py n of None \<Rightarrow> raises OverflowError | Some x \<Rightarrow> returns x)"


section \<open>instrument_drivers/Minicircuits/USBHIDMixin.py\<close>

type_synonym byte = "8 word"

text \<open>
  The mixin's state. \<open>output_reports\<close> logs every packet handed to
  \<open>send_output_report\<close>; \<open>accepts\<close> is the result that call reports. The raw-data handler
  runs on an operating-system callback: \<open>arrivals\<close> lists, for each successive polling
  interval, the packet the handler stores during it (\<open>None\<close>: no callback).
\<close>

record hid =
  packet_size :: int
  data_buffer :: "byte list option"
  timeout :: real
  output_reports :: "byte list list"
  accepts :: bool
  arrivals :: "byte list option list"

text \<open>\<open>struct.pack(f"B{data_len}s{pad_len}x", feature_id, data)\<close>.\<close>

definition struct_pack :: "int \<Rightarrow> byte list \<Rightarrow> nat \<Rightarrow> exn + byte list" where
  "struct_pack feature_id data pad_len =
     (if 0 \<le> feature_id \<and> feature_id \<le> 255
      then Inr (word_of_int feature_id # data @ replicate pad_len 0)
      else Inl StructError)"

definition send_hid :: "int \<Rightarrow> byte list \<Rightarrow> hid \<Rightarrow> (unit, hid) outcome" where
  "send_hid feature_id data d =
     (let data_len = int (length data);
          pad_len = packet_size d - data_len
      in if pad_len < 0 then (Inl (ValueError DataTooLong), d)
         else (case struct_pack feature_id data (nat pad_len) of
                 Inl e \<Rightarrow> (Inl e, d)
               | Inr packed_data \<Rightarrow>
                   let d' = d\<lparr>output_reports := output_reports d @ [packed_data]\<rparr>
                   in if accepts d then (Inr (), d')
                      else (Inl (RuntimeError CommunicationFailed), d')))"

text \<open>One \<open>time.sleep(1 / tries_per_second)\<close>: the handler may store a packet meanwhile.\<close>

definition sleep_tick :: "hid \<Rightarrow> hid" where
  "sleep_tick d =
     (case arrivals d of
        [] \<Rightarrow> d
      | a # rest \<Rightarrow>
          d\<lparr>arrivals := rest,
            data_buffer := (case a of None \<Rightarrow> data_buffer d | Some p \<Rightarrow> Some p)\<rparr>)"

definition get_data_buffer :: "hid \<Rightarrow> byte list option \<times> hid" where
  "get_data_buffer d = (data_buffer d, d\<lparr>data_buffer := None\<rparr>)"

text \<open>The polling loop of \<open>ask_hid\<close>: \<open>response\<close> after at most \<open>n\<close> tries.\<close>

primrec poll :: "nat \<Rightarrow> hid \<Rightarrow> byte list option \<times> hid" where
  "poll 0 d = (None, d)"
| "poll (Suc n) d =
     (case get_data_buffer (sleep_tick d) of
        (Some response, d') \<Rightarrow> (Some response, d')
      | (None, d') \<Rightarrow> poll n d')"

definition ask_hid :: "int \<Rightarrow> byte list \<Rightarrow> hid \<Rightarrow> (byte list, hid) outcome" where
  "ask_hid feature_id data =
     andthen (send_hid feature_id data) (\<lambda>_ d.
       let tries_per_second = 5;
           number_of_tries = py_int (tries_per_second * timeout d)
       in (case poll (nat number_of_tries) d of
             (None, d') \<Rightarrow> (Inl TimeoutError, d')
           | (Some response, d') \<Rightarrow> (Inr (drop 1 response), d')))"


section \<open>instrument_drivers/QDevil/QDevil_QDAC.py\<close>

datatype mode = vhigh_ihigh | vhigh_ilow | vlow_ilow

fun mode_v :: "mode \<Rightarrow> int" where
  "mode_v vhigh_ihigh = 0"
| "mode_v vhigh_ilow = 0"
| "mode_v vlow_ilow = 1"

fun mode_i :: "mode \<Rightarrow> int" where
  "mode_i vhigh_ihigh = 1"
| "mode_i vhigh_ilow = 0"
| "mode_i vlow_ilow = 0"

text \<open>\<open>class Generator\<close>: a generator number and the time its ramp is expected to end.\<close>

record generator =
  fg :: int
  t_end :: real

definition Generator :: "int \<Rightarrow> generator" where
  "Generator generator_number = \<lparr>fg = generator_number, t_end = 99 / 10 * 10 ^ 9\<rparr>"

text \<open>
  Keys of \<open>_assigned_triggers\<close>. Every insertion in the driver uses a generator number;
  \<open>_setslope\<close> looks up a \<open>Generator\<close> instance, which defines no \<open>__eq__\<close> or \<open>__hash__\<close>
  and so never equals a number.
\<close>

datatype trigkey = FgId int | GenObj generator

datatype slope = Inf | Slope real

datatype warning =
    StepLengthTooShort | RampTimeTooShort | WaitingForGenerator | VoltageClipped

text \<open>
  The driver object. Per-channel parameters are functions of the 1-based channel number:
  \<open>v_cache\<close> is \<open>channels[chan-1].v.cache\<close>, \<open>v_vals\<close> the bounds of its \<open>Numbers\<close>
  validator, \<open>vranges chan r\<close> the calibrated \<open>(Min, Max)\<close> of range \<open>r\<close>. The VISA handle
  is \<open>sent\<close> (every command written, oldest first), \<open>inbox\<close> (the reply lines the device
  delivers, next first), and \<open>ret_code\<close>, the status its \<open>write\<close> reports. \<open>clock\<close> is
  \<open>time.time()\<close>; \<open>warnings\<close> collects the \<open>LOG.warning\<close> calls.
\<close>

record qdac =
  num_chans :: int
  num_syns :: int
  slopes :: "(int \<times> real) list"
  assigned_fgs :: "(int \<times> generator) list"
  assigned_triggers :: "(trigkey \<times> int) list"
  syncoutputs :: "(int \<times> int) list"
  v_cache :: "int \<Rightarrow> real"
  v_vals :: "int \<Rightarrow> real \<times> real"
  mode_cache :: "int \<Rightarrow> mode"
  sync_cache :: "int \<Rightarrow> int"
  sync_delay :: "int \<Rightarrow> real"
  sync_duration :: "int \<Rightarrow> real"
  vranges :: "int \<Rightarrow> int \<Rightarrow> real \<times> real"
  mode_force :: bool
  write_response :: string
  sent :: "string list"
  inbox :: "string list"
  ret_code :: int
  clock :: real
  warnings :: "warning list"

text \<open>\<open>self._fgs = set(range(1, 9))\<close> and \<open>self._trigs = set(range(1, 10))\<close>; never mutated.\<close>

definition fgs :: "int list" where
  "fgs = [1, 2, 3, 4, 5, 6, 7, 8]"

definition trigs :: "int list" where
  "trigs = [1, 2, 3, 4, 5, 6, 7, 8, 9]"

definition warn :: "warning \<Rightarrow> qdac \<Rightarrow> (unit, qdac) outcome" where
  "warn w s = (Inr (), s\<lparr>warnings := warnings s @ [w]\<rparr>)"

text \<open>\<open>chan not in range(1, self.num_chans+1)\<close> is the negation of this.\<close>

definition chan_ok :: "qdac \<Rightarrow> int \<Rightarrow> bool" where
  "chan_ok s chan = (1 \<le> chan \<and> chan \<le> num_chans s)"

subsection \<open>The line protocol\<close>

definition visa_write :: "string \<Rightarrow> qdac \<Rightarrow> (int, qdac) outcome" where
  "visa_write cmd s = (Inr (ret_code s), s\<lparr>sent := sent s @ [cmd]\<rparr>)"

text \<open>A read with no reply pending ends in the handle's timeout error.\<close>

definition visa_read :: "qdac \<Rightarrow> (string, qdac) outcome" where
  "visa_read s =
     (case inbox s of
        [] \<Rightarrow> (Inl VisaIOError, s)
      | line # rest \<Rightarrow> (Inr line, s\<lparr>inbox := rest\<rparr>))"

definition check_error :: "int \<Rightarrow> qdac \<Rightarrow> (unit, qdac) outcome" where
  "check_error code = (if code \<noteq> 0 then raises VisaIOError else returns ())"

text \<open>\<open>for _ in range(n): self._write_response = self.visa_handle.read()\<close>.\<close>

primrec read_responses :: "nat \<Rightarrow> qdac \<Rightarrow> (unit, qdac) outcome" where
  "read_responses 0 = returns ()"
| "read_responses (Suc n) =
     andthen visa_read (\<lambda>line s. read_responses n (s\<lparr>write_response := line\<rparr>))"

text \<open>\<open>QDac.write\<close> (\<open>write\<close> is a reserved word of the theory language).\<close>

definition write_cmd :: "string \<Rightarrow> qdac \<Rightarrow> (unit, qdac) outcome" where
  "write_cmd cmd =
     andthen (visa_write cmd) (\<lambda>code.
     andthen (check_error code) (\<lambda>_.
     read_responses (count_list cmd CHR '';'' + 1)))"

subsection \<open>Channel parameters\<close>

text \<open>
  \<open>channels[chan-1].v.get()\<close>: the parameter has \<open>get_cmd='set {chan}'\<close> and
  \<open>get_parser=float\<close>, so the framework queries the device with that command, reads one
  line, parses it and stores the value in the parameter's cache.
\<close>

definition v_get :: "pyconv \<Rightarrow> int \<Rightarrow> qdac \<Rightarrow> (real, qdac) outcome" where
  "v_get py chan =
     andthen (visa_write (''set '' @ str_int chan)) (\<lambda>_.
     andthen visa_read (\<lambda>line s.
       (case to_float py line of
          None \<Rightarrow> (Inl (ValueError BadNumber), s)
        | Some v \<Rightarrow> (Inr v, s\<lparr>v_cache := (v_cache s)(chan := v)\<rparr>))))"

text \<open>\<open>channels[chan-1].v.validate(v)\<close> with the \<open>Numbers(min, max)\<close> validator.\<close>

definition valid_voltage :: "qdac \<Rightarrow> int \<Rightarrow> real \<Rightarrow> bool" where
  "valid_voltage s chan v = (fst (v_vals s chan) \<le> v \<and> v \<le> snd (v_vals s chan))"

definition v_validate :: "int \<Rightarrow> real \<Rightarrow> qdac \<Rightarrow> (unit, qdac) outcome" where
  "v_validate chan v s =
     (if valid_voltage s chan v then (Inr (), s)
      else (Inl (ValueError NotInValidatorRange), s))"

definition v_vals_of :: "qdac \<Rightarrow> int \<Rightarrow> int \<Rightarrow> real \<times> real" where
  "v_vals_of s chan vrange_int = vranges s chan vrange_int"

text \<open>
  \<open>'set {ch} {voltage:.6f};wav {ch} 0 0 0'.format(ch=chan, voltage=v_set)\<close>: the command
  that puts a channel in DC mode. The driver builds it in \<open>_setslope\<close> and in
  \<open>_get_functiongenerator\<close>.
\<close>

definition dc_cmd :: "pyconv \<Rightarrow> int \<Rightarrow> real \<Rightarrow> string" where
  "dc_cmd py ch voltage =
     ''set '' @ str_int ch @ '' '' @ fmt_6f py voltage @ '';wav '' @ str_int ch @ '' 0 0 0''"

subsection \<open>\<open>_setsync\<close> and \<open>_getsync\<close>\<close>

definition setsync :: "int \<Rightarrow> int \<Rightarrow> qdac \<Rightarrow> (unit, qdac) outcome" where
  "setsync chan sync s =
     (if \<not> chan_ok s chan then (Inl (ValueError ChannelNumberOutOfRange), s)
      else if sync = 0 then
        (let oldsync = sync_cache s chan;
             s1 = s\<lparr>syncoutputs := AList.delete chan (syncoutputs s)\<rparr>
         in write_cmd (''syn '' @ str_int oldsync @ '' 0 0 0'') s1)
      else
        andthen
          (\<lambda>s. if chan \<in> fst ` set (syncoutputs s) then
                  (let oldsync = sync_cache s chan
                   in if sync \<noteq> oldsync then write_cmd (''syn '' @ str_int oldsync @ '' 0 0 0'') s
                      else (Inr (), s))
                else if sync \<in> snd ` set (syncoutputs s) then
                  (let oldchan = map fst (filter (\<lambda>(ch, sy). sy = sync) (syncoutputs s));
                       s1 = s\<lparr>syncoutputs := AList.delete (hd oldchan) (syncoutputs s)\<rparr>
                   in write_cmd (''syn '' @ str_int sync @ '' 0 0 0'') s1)
                else (Inr (), s))
          (\<lambda>_ s. (Inr (), s\<lparr>syncoutputs := AList.update chan sync (syncoutputs s)\<rparr>))
          s)"

definition getsync :: "qdac \<Rightarrow> int \<Rightarrow> int" where
  "getsync s chan = (case map_of (syncoutputs s) chan of None \<Rightarrow> 0 | Some sy \<Rightarrow> sy)"

text \<open>
  \<open>channels[chan-1].sync.set(v)\<close>: the framework validates against \<open>Ints(0, num_syns)\<close>,
  calls \<open>_setsync\<close> and then caches the value.
\<close>

definition sync_set :: "int \<Rightarrow> int \<Rightarrow> qdac \<Rightarrow> (unit, qdac) outcome" where
  "sync_set chan v =
     andthen (\<lambda>s. if 0 \<le> v \<and> v \<le> num_syns s then (Inr (), s)
                  else (Inl (ValueError NotInValidatorRange), s)) (\<lambda>_.
     andthen (setsync chan v) (\<lambda>_ s.
       (Inr (), s\<lparr>sync_cache := (sync_cache s)(chan := v)\<rparr>)))"

subsection \<open>\<open>_setslope\<close> and \<open>_getslope\<close>\<close>

text \<open>
  The \<open>try\<close> block of \<open>_setslope\<close>. \<open>fg = self._assigned_fgs[chan]\<close> is the
  \<open>Generator\<close> object; a missing channel raises \<open>KeyError\<close>, which the \<open>except\<close>
  swallows. The end time is set first; then \<open>self._assigned_triggers.pop(fg)\<close> looks the
  object itself up, and a missing key is again a swallowed \<open>KeyError\<close>.
\<close>

definition release_generator :: "int \<Rightarrow> qdac \<Rightarrow> qdac" where
  "release_generator chan s =
     (case map_of (assigned_fgs s) chan of
        None \<Rightarrow> s
      | Some g \<Rightarrow>
          let g0 = g\<lparr>t_end := 0\<rparr>;
              s1 = s\<lparr>assigned_fgs := AList.update chan g0 (assigned_fgs s)\<rparr>
          in if GenObj g0 \<in> fst ` set (assigned_triggers s1)
             then s1\<lparr>assigned_triggers := AList.delete (GenObj g0) (assigned_triggers s1)\<rparr>
             else s1)"

definition setslope :: "pyconv \<Rightarrow> int \<Rightarrow> slope \<Rightarrow> qdac \<Rightarrow> (unit, qdac) outcome" where
  "setslope py chan slope s =
     (if \<not> chan_ok s chan then (Inl (ValueError ChannelNumberOutOfRange), s)
      else (case slope of
         Inf \<Rightarrow>
           andthen (v_get py chan) (\<lambda>v_set.
           andthen (write_cmd (dc_cmd py chan v_set)) (\<lambda>_.
           andthen (\<lambda>s. (Inr (), release_generator chan s)) (\<lambda>_.
           andthen (\<lambda>s. if chan \<in> fst ` set (syncoutputs s) then sync_set chan 0 s
                         else (Inr (), s)) (\<lambda>_ s.
             (Inr (), s\<lparr>slopes := AList.delete chan (slopes s)\<rparr>))))) s
       | Slope x \<Rightarrow> (Inr (), s\<lparr>slopes := AList.update chan x (slopes s)\<rparr>)))"

definition getslope :: "qdac \<Rightarrow> int \<Rightarrow> slope" where
  "getslope s chan = (case map_of (slopes s) chan of None \<Rightarrow> Inf | Some x \<Rightarrow> Slope x)"

subsection \<open>\<open>_set_mode\<close>\<close>

definition clipto :: "real \<Rightarrow> real \<Rightarrow> real \<Rightarrow> qdac \<Rightarrow> (real, qdac) outcome" where
  "clipto v lo hi s =
     (if v > hi then (Inr hi, s\<lparr>warnings := warnings s @ [VoltageClipped]\<rparr>)
      else if v < lo then (Inr lo, s\<lparr>warnings := warnings s @ [VoltageClipped]\<rparr>)
      else (Inr v, s))"

definition wav_or_set_msg :: "pyconv \<Rightarrow> int \<Rightarrow> real \<Rightarrow> qdac \<Rightarrow> (string, qdac) outcome" where
  "wav_or_set_msg py chan new_voltage =
     andthen (write_cmd (''wav '' @ str_int chan)) (\<lambda>_ s.
       (case split_on CHR '','' (write_response s) of
          [gen, _, _] \<Rightarrow>
            (case to_int py gen of
               None \<Rightarrow> (Inl (ValueError BadNumber), s)
             | Some g \<Rightarrow>
                 if g > 0 then
                   (Inr (''wav '' @ str_int chan @ '' '' @ str_int g @ '' '' @ fmt_6f py 0
                         @ '' '' @ fmt_6f py new_voltage), s)
                 else (Inr (''set '' @ str_int chan @ '' '' @ fmt_6f py new_voltage), s))
        | _ \<Rightarrow> (Inl (ValueError BadUnpack), s)))"

definition max_zero_voltage :: "int \<Rightarrow> real" where
  "max_zero_voltage vrange = (if vrange = 0 then 20 / 10 ^ 6 else 3 / 10 ^ 6)"

definition set_mode :: "pyconv \<Rightarrow> int \<Rightarrow> mode \<Rightarrow> qdac \<Rightarrow> (unit, qdac) outcome" where
  "set_mode py chan new_mode s =
     (let old_mode = mode_cache s chan;
          new_vrange = mode_v new_mode;
          old_vrange = mode_v old_mode;
          new_irange = mode_i new_mode;
          old_irange = mode_i old_mode
      in if old_mode = new_mode then (Inr (), s)
         else if new_irange \<noteq> old_irange \<and> new_vrange = old_vrange \<and> old_vrange = 0 then
           write_cmd (''cur '' @ str_int chan @ '' '' @ str_int new_irange) s
         else
           (let message1 =
                  (if new_irange < old_irange \<and> new_vrange > old_vrange
                   then ''cur '' @ str_int chan @ '' '' @ str_int new_irange @ '';''
                   else '''')
            in
            andthen (v_get py chan) (\<lambda>old_voltage.
            andthen (\<lambda>s. if \<not> mode_force s \<and> \<bar>old_voltage\<bar> > max_zero_voltage old_vrange
                          then (Inl (ValueError NonZeroVoltage), s) else (Inr (), s)) (\<lambda>_.
            andthen (\<lambda>s. clipto old_voltage (fst (vranges s chan new_vrange))
                                 (snd (vranges s chan new_vrange)) s) (\<lambda>new_voltage.
            andthen (wav_or_set_msg py chan new_voltage) (\<lambda>m s.
              (let message2 = message1 @ ''vol '' @ str_int chan @ '' '' @ str_int new_vrange
                                @ '';'' @ m;
                   message3 =
                     (if new_irange > old_irange \<and> new_vrange < old_vrange
                      then message2 @ '';cur '' @ str_int chan @ '' '' @ str_int new_irange
                      else message2);
                   s1 = s\<lparr>v_vals := (v_vals s)(chan := v_vals_of s chan new_vrange)\<rparr>;
                   s2 = s1\<lparr>v_cache := (v_cache s1)(chan := new_voltage)\<rparr>
               in write_cmd message3 s2))))) s))"

subsection \<open>\<open>_get_functiongenerator\<close>\<close>

text \<open>
  The second half of the \<open>else\<close> branch: hand the generator of the first channel in
  \<open>available_fgs_chans\<close> to \<open>chan\<close> and put the old channel in DC mode, or raise when
  the list is empty.
\<close>

definition reassign_generator ::
  "pyconv \<Rightarrow> int \<Rightarrow> int list \<Rightarrow> qdac \<Rightarrow> (int, qdac) outcome" where
  "reassign_generator py chan available_fgs_chans s =
     (case available_fgs_chans of
        [] \<Rightarrow> (Inl (RuntimeError NoGeneratorAvailable), s)
      | oldchan # _ \<Rightarrow>
          (case map_of (assigned_fgs s) oldchan of
             None \<Rightarrow> (Inl KeyError, s)
           | Some g \<Rightarrow>
               let f = fg g;
                   s1 = s\<lparr>assigned_fgs := AList.delete oldchan (assigned_fgs s)\<rparr>;
                   s2 = s1\<lparr>assigned_fgs := AList.update chan (Generator f) (assigned_fgs s1)\<rparr>;
                   v_set = v_cache s2 oldchan
               in andthen (write_cmd (dc_cmd py oldchan v_set)) (\<lambda>_. returns f) s2))"

definition get_functiongenerator :: "pyconv \<Rightarrow> int \<Rightarrow> qdac \<Rightarrow> (int, qdac) outcome" where
  "get_functiongenerator py chan s =
     (let fgs_timeout = 2 in
      if length (assigned_fgs s) < 8 then
        (case filter (\<lambda>f. f \<notin> set (map (\<lambda>(c, g). fg g) (assigned_fgs s))) fgs of
           [] \<Rightarrow> (Inl (ValueError EmptyMin), s)
         | f # rest \<Rightarrow>
             let new_fg = min_list (f # rest)
             in (Inr new_fg,
                 s\<lparr>assigned_fgs := AList.update chan (Generator new_fg) (assigned_fgs s)\<rparr>))
      else
        (let time_now = clock s;
             fgs_t_end_ok =
               map (\<lambda>(c, g). t_end g)
                 (filter (\<lambda>(c, g). t_end g < time_now + fgs_timeout) (assigned_fgs s))
         in if length fgs_t_end_ok > 0 then
              (let first_ready_t = min_list fgs_t_end_ok;
                   available_fgs_chans =
                     map fst (filter (\<lambda>(c, g). t_end g = first_ready_t) (assigned_fgs s));
                   s1 = (if first_ready_t > time_now
                         then s\<lparr>warnings := warnings s @ [WaitingForGenerator],
                                clock := clock s + (first_ready_t - time_now)\<rparr>
                         else s)
               in reassign_generator py chan available_fgs_chans s1)
            else reassign_generator py chan [] s))"

subsection \<open>\<open>ramp_voltages_2d\<close> and \<open>ramp_voltages\<close>\<close>

text \<open>The first loop: the channel-number check and the generator acquisition, per channel.\<close>

definition check_and_acquire :: "pyconv \<Rightarrow> int \<Rightarrow> qdac \<Rightarrow> (unit, qdac) outcome" where
  "check_and_acquire py chan s =
     (if \<not> chan_ok s chan then (Inl (ValueError ChannelNumberOutOfRange), s)
      else if chan \<notin> fst ` set (assigned_fgs s)
           then andthen (get_functiongenerator py chan) (\<lambda>_. returns ()) s
      else (Inr (), s))"

text \<open>
  \<open>self.channels[channellist[i]-1].v.validate(vlist[i])\<close>; an index beyond \<open>vlist\<close>
  raises \<open>IndexError\<close>.
\<close>

definition validate_at :: "int list \<Rightarrow> real list \<Rightarrow> nat \<Rightarrow> qdac \<Rightarrow> (unit, qdac) outcome" where
  "validate_at channellist vlist i s =
     (if i < length vlist then v_validate (channellist ! i) (vlist ! i) s
      else (Inl IndexError, s))"

text \<open>
  \<open>min(self._trigs.difference(set(self._assigned_triggers.values())))\<close>, or 0 for a single
  channel.
\<close>

definition free_trigs :: "qdac \<Rightarrow> int list" where
  "free_trigs s = filter (\<lambda>t. t \<notin> snd ` set (assigned_triggers s)) trigs"

definition select_trigger :: "nat \<Rightarrow> qdac \<Rightarrow> (int, qdac) outcome" where
  "select_trigger no_channels s =
     (if no_channels = 1 then (Inr 0, s)
      else (case free_trigs s of
              [] \<Rightarrow> (Inl (ValueError EmptyMin), s)
            | t # rest \<Rightarrow> (Inr (min_list (t # rest)), s)))"

definition configure_sync :: "pyconv \<Rightarrow> int \<Rightarrow> qdac \<Rightarrow> (unit, qdac) outcome" where
  "configure_sync py chan s =
     (case map_of (syncoutputs s) chan of
        None \<Rightarrow> (Inr (), s)
      | Some sync \<Rightarrow>
          andthen (ms_of py (sync_duration s chan)) (\<lambda>sync_duration_ms.
          andthen (ms_of py (sync_delay s chan)) (\<lambda>sync_delay_ms s.
            (case map_of (assigned_fgs s) chan of
               None \<Rightarrow> (Inl KeyError, s)
             | Some g \<Rightarrow>
                 write_cmd (''syn '' @ str_int sync @ '' '' @ str_int (fg g) @ '' ''
                        @ str_int sync_delay_ms @ '' '' @ str_int sync_duration_ms) s))) s)"

text \<open>The text one pass of the programming loop appends to \<open>msg\<close>.\<close>

definition wav_fun_cmd ::
  "pyconv \<Rightarrow> int \<Rightarrow> int \<Rightarrow> real \<Rightarrow> real \<Rightarrow> int \<Rightarrow> int \<Rightarrow> int \<Rightarrow> int \<Rightarrow> string" where
  "wav_fun_cmd py ch f amplitude v_start delay nsteps repetitions trigger =
     ''wav '' @ str_int ch @ '' '' @ str_int f @ '' '' @ fmt py amplitude @ '' '' @ fmt py v_start
     @ '';fun '' @ str_int f @ '' 4 '' @ str_int delay @ '' '' @ str_int nsteps @ '' ''
     @ str_int repetitions @ '' '' @ str_int trigger @ '';''"

definition program_channel ::
  "pyconv \<Rightarrow> int list \<Rightarrow> int list \<Rightarrow> int list \<Rightarrow> real list \<Rightarrow> real list \<Rightarrow> int \<Rightarrow> int \<Rightarrow> int
     \<Rightarrow> int \<Rightarrow> nat \<Rightarrow> string \<Rightarrow> qdac \<Rightarrow> (string, qdac) outcome" where
  "program_channel py slow_chans fast_chans channellist v_startlist v_endlist step_length_ms
       slow_steps fast_steps trigger i msg s =
     (let amplitude = fsub py (v_endlist ! i) (v_startlist ! i);
          ch = channellist ! i
      in (case map_of (assigned_fgs s) ch of
            None \<Rightarrow> (Inl KeyError, s)
          | Some g \<Rightarrow>
              let f = fg g;
                  s1 = (if trigger > 0
                        then s\<lparr>assigned_triggers :=
                                 AList.update (FgId f) trigger (assigned_triggers s)\<rparr>
                        else s);
                  nsteps = (if ch \<in> set slow_chans then slow_steps else fast_steps);
                  repetitions = (if ch \<in> set fast_chans then slow_steps else 1);
                  delay = (if ch \<in> set fast_chans then step_length_ms
                           else fast_steps * step_length_ms);
                  msg' = msg @ wav_fun_cmd py ch f amplitude (v_startlist ! i) delay nsteps
                                 repetitions trigger
              in (Inr msg', s1\<lparr>v_cache := (v_cache s1)(ch := v_endlist ! i)\<rparr>)))"

definition set_t_end :: "real \<Rightarrow> int \<Rightarrow> qdac \<Rightarrow> (unit, qdac) outcome" where
  "set_t_end time_end chan s =
     (case map_of (assigned_fgs s) chan of
        None \<Rightarrow> (Inl KeyError, s)
      | Some g \<Rightarrow>
          (Inr (), s\<lparr>assigned_fgs := AList.update chan (g\<lparr>t_end := time_end\<rparr>) (assigned_fgs s)\<rparr>))"

text \<open>
  The validation part of \<open>ramp_voltages_2d\<close>, from the step-length warning to the
  validation of the start voltages, in the order of the source: the loop that checks the
  channel numbers is also the loop that acquires the generators, and the voltages are
  validated after it.
\<close>

definition ramp_validate ::
  "pyconv \<Rightarrow> int list \<Rightarrow> int list \<Rightarrow> real list \<Rightarrow> real list \<Rightarrow> real
     \<Rightarrow> qdac \<Rightarrow> (unit, qdac) outcome" where
  "ramp_validate py slow_chans fast_chans v_startlist v_endlist step_length =
     (let channellist = slow_chans @ fast_chans;
          no_channels = length channellist
      in
      andthen (if step_length < 1 / 1000 then warn StepLengthTooShort else returns ()) (\<lambda>_.
      andthen (if list_ex (\<lambda>ch. ch \<in> set fast_chans) slow_chans
               then raises (ValueError ChannelInBothGroups) else returns ()) (\<lambda>_.
      andthen (if no_channels \<noteq> length v_endlist
               then raises (ValueError VoltageCountMismatch) else returns ()) (\<lambda>_.
      andthen (for_each (check_and_acquire py) channellist) (\<lambda>_.
      andthen (for_each (validate_at channellist v_endlist) [0..<no_channels]) (\<lambda>_.
      (if v_startlist \<noteq> []
       then for_each (validate_at channellist v_startlist) [0..<no_channels]
       else returns ())))))))"

definition ramp_voltages_2d ::
  "pyconv \<Rightarrow> int list \<Rightarrow> real list \<Rightarrow> real list \<Rightarrow> int list \<Rightarrow> real list \<Rightarrow> real list
     \<Rightarrow> real \<Rightarrow> int \<Rightarrow> int \<Rightarrow> qdac \<Rightarrow> (real, qdac) outcome" where
  "ramp_voltages_2d py slow_chans slow_vstart slow_vend fast_chans fast_vstart fast_vend
       step_length slow_steps fast_steps =
     (let channellist = slow_chans @ fast_chans;
          v_endlist = slow_vend @ fast_vend;
          v_startlist = slow_vstart @ fast_vstart;
          no_channels = length channellist
      in
      andthen (ms_of py step_length) (\<lambda>step_length_ms.
      (let step_length_ms = (if step_length < 1 / 1000 then 1 else step_length_ms) in
      andthen (ramp_validate py slow_chans fast_chans v_startlist v_endlist step_length) (\<lambda>_.
      andthen (if slow_vstart = [] then map_each (v_get py) slow_chans
               else returns slow_vstart) (\<lambda>slow_vstart.
      andthen (if fast_vstart = [] then map_each (v_get py) fast_chans
               else returns fast_vstart) (\<lambda>fast_vstart.
      (let v_startlist = slow_vstart @ fast_vstart in
      andthen (if no_channels \<noteq> length v_startlist
               then raises (ValueError StartCountMismatch) else returns ()) (\<lambda>_.
      andthen (select_trigger no_channels) (\<lambda>trigger.
      andthen (for_each (configure_sync py) channellist) (\<lambda>_.
      andthen (fold_each
                 (program_channel py slow_chans fast_chans channellist v_startlist v_endlist
                    step_length_ms slow_steps fast_steps trigger)
                 [0..<no_channels] '''') (\<lambda>msg.
      andthen (write_cmd (butlast msg)) (\<lambda>_.
      andthen (if trigger > 0 then write_cmd (''trig '' @ str_int trigger) else returns ()) (\<lambda>_.
      andthen (seconds_of py (slow_steps * fast_steps * step_length_ms)) (\<lambda>time_ramp s.
        (let time_end = fadd py time_ramp (clock s)
         in andthen (for_each (set_t_end time_end) channellist)
              (\<lambda>_. returns time_ramp) s)))))))))))))))"

definition ramp_voltages ::
  "pyconv \<Rightarrow> int list \<Rightarrow> real list \<Rightarrow> real list \<Rightarrow> real \<Rightarrow> qdac \<Rightarrow> (real, qdac) outcome" where
  "ramp_voltages py channellist v_startlist v_endlist ramptime =
     andthen (if ramptime < 2 / 1000
              then andthen (warn RampTimeTooShort) (\<lambda>_. returns (2 / 1000))
              else returns ramptime) (\<lambda>ramptime.
     andthen (ms_of py ramptime) (\<lambda>steps.
       ramp_voltages_2d py [] [] [] channellist v_startlist v_endlist (1 / 1000) 1 steps))"

subsection \<open>Sample objects for concrete runs\<close>

text \<open>\<open>_reset_bookkeeping\<close>.\<close>

definition reset_bookkeeping :: "qdac \<Rightarrow> qdac" where
  "reset_bookkeeping s =
     s\<lparr>slopes := [], assigned_fgs := [], assigned_triggers := [], syncoutputs := []\<rparr>"

text \<open>
  A 24-channel unit right after construction: fresh bookkeeping, every channel at 0 V in
  mode \<open>vhigh_ihigh\<close>, bounds \<open>\<plusminus>9.99\<close> V in the high and \<open>\<plusminus>1\<close> V in the low range.
  The argument lists the reply lines the device is going to deliver.
\<close>

definition sample_qdac :: "string list \<Rightarrow> qdac" where
  "sample_qdac replies =
     \<lparr>num_chans = 24, num_syns = 2, slopes = [], assigned_fgs = [], assigned_triggers = [],
      syncoutputs = [], v_cache = (\<lambda>_. 0), v_vals = (\<lambda>_. (- 999 / 100, 999 / 100)),
      mode_cache = (\<lambda>_. vhigh_ihigh), sync_cache = (\<lambda>_. 0), sync_delay = (\<lambda>_. 0),
      sync_duration = (\<lambda>_. 1 / 100),
      vranges = (\<lambda>_ r. if r = 0 then (- 999 / 100, 999 / 100) else (- 1, 1)),
      mode_force = False, write_response = [], sent = [], inbox = replies, ret_code = 0,
      clock = 1000, warnings = []\<rparr>"

text \<open>
  Sample conversions, right on the values the concrete runs use: integer-valued floats
  print as \<open>N.0\<close> and \<open>N.000000\<close>, and a string of decimal digits parses to its value.
  A decimal literal of the source such as \<open>0.1\<close> is written as the fraction it denotes;
  on the values of the concrete runs the float operations give what exact arithmetic
  gives (\<open>int(0.1*1000)\<close> is 100, \<open>int(0.001*1000)\<close> is 1, \<open>100 / 1000\<close> is \<open>0.1\<close>).
\<close>

definition digits_value :: "string \<Rightarrow> nat option" where
  "digits_value s =
     (if s \<noteq> [] \<and> list_all (\<lambda>c. c \<in> set ''0123456789'') s
      then Some (foldl (\<lambda>n c. 10 * n + (of_char c - 48)) 0 s)
      else None)"

definition sample_py :: pyconv where
  "sample_py =
     \<lparr>fmt = (\<lambda>x. str_int \<lfloor>x\<rfloor> @ ''.0''),
      fmt_6f = (\<lambda>x. str_int \<lfloor>x\<rfloor> @ ''.000000''),
      to_float = (\<lambda>s. map_option real (digits_value s)),
      to_int = (\<lambda>s. map_option int (digits_value s)),
      int_times_1000 = (\<lambda>x. Some (py_int (x * 1000))),
      div_1000 = (\<lambda>n. Some (real_of_int n / 1000)),
      fsub = (\<lambda>a b. a - b),
      fadd = (\<lambda>a b. a + b)\<rparr>"

text \<open>The same unit with all eight generators handed out and still ramping.\<close>

definition busy_qdac :: "string list \<Rightarrow> qdac" where
  "busy_qdac replies =
     (sample_qdac replies)
       \<lparr>assigned_fgs := map (\<lambda>i. (i, Generator i)) [1, 2, 3, 4, 5, 6, 7, 8]\<rparr>"

text \<open>All eight generators handed out, every ramp finished long ago.\<close>

definition idle_pool_qdac :: "string list \<Rightarrow> qdac" where
  "idle_pool_qdac replies =
     (sample_qdac replies)
       \<lparr>assigned_fgs := map (\<lambda>i. (i, \<lparr>fg = i, t_end = 0\<rparr>)) [1, 2, 3, 4, 5, 6, 7, 8]\<rparr>"

definition sample_hid :: hid where
  "sample_hid =
     \<lparr>packet_size = 4, data_buffer = None, timeout = 2, output_reports = [], accepts = True,
      arrivals = [None, Some [1, 7, 8, 9, 0]]\<rparr>"

subsection \<open>Frame conditions\<close>

text \<open>
  \<open>preserves K m\<close>: running \<open>m\<close> leaves the observation \<open>K\<close> of the state as it was,
  whether \<open>m\<close> returns or raises. \<open>emits P m\<close>: every command \<open>m\<close> writes satisfies
  \<open>P\<close>, and \<open>m\<close> only appends to the log of written commands.
\<close>

definition preserves :: "('s \<Rightarrow> 'k) \<Rightarrow> ('s \<Rightarrow> ('a, 's) outcome) \<Rightarrow> bool" where
  "preserves K m = (\<forall>s. K (snd (m s)) = K s)"

definition emits :: "(string \<Rightarrow> bool) \<Rightarrow> (qdac \<Rightarrow> ('a, qdac) outcome) \<Rightarrow> bool" where
  "emits P m = (\<forall>s. \<exists>cs. sent (snd (m s)) = sent s @ cs \<and> list_all P cs)"

definition starts_with :: "string \<Rightarrow> string \<Rightarrow> bool" where
  "starts_with p c = (take (length p) c = p)"

text \<open>The driver object with the VISA handle's state blanked.\<close>

definition off_transport :: "qdac \<Rightarrow> qdac" where
  "off_transport s = s\<lparr>sent := [], inbox := [], write_response := []\<rparr>"

text \<open>
  With the handle, the generator table, the clock and the warning log blanked: two
  objects equal under \<open>off_pool\<close> agree on everything else, in particular on the cached
  voltages, the validators, the trigger table, the slopes and the sync outputs.
\<close>

definition off_pool :: "qdac \<Rightarrow> qdac" where
  "off_pool s = (off_transport s)\<lparr>assigned_fgs := [], clock := 0, warnings := []\<rparr>"

definition off_cache :: "qdac \<Rightarrow> qdac" where
  "off_cache s = (off_transport s)\<lparr>v_cache := (\<lambda>_. 0)\<rparr>"

text \<open>A command that puts some channel in DC mode.\<close>

definition is_dc :: "pyconv \<Rightarrow> string \<Rightarrow> bool" where
  "is_dc py c = (c \<in> range (\<lambda>(ch, v). dc_cmd py ch v))"

text \<open>
  The two checks \<open>ramp_voltages_2d\<close> makes before it touches anything: a channel in
  both groups, and a number of end voltages that differs from the number of channels.
\<close>

definition early_config_error :: "int list \<Rightarrow> real list \<Rightarrow> int list \<Rightarrow> real list \<Rightarrow> bool" where
  "early_config_error slow_chans slow_vend fast_chans fast_vend =
     (list_ex (\<lambda>ch. ch \<in> set fast_chans) slow_chans
      \<or> length (slow_chans @ fast_chans) \<noteq> length (slow_vend @ fast_vend))"

text \<open>
  The errors as the loops of \<open>ramp_voltages_2d\<close> meet them: the voltage at position
  \<open>i\<close> of a concatenated voltage list is validated against the channel at position \<open>i\<close>
  of the concatenated channel list.
\<close>

definition positional_config_error ::
  "qdac \<Rightarrow> int list \<Rightarrow> real list \<Rightarrow> real list \<Rightarrow> int list \<Rightarrow> real list \<Rightarrow> real list \<Rightarrow> bool" where
  "positional_config_error s slow_chans slow_vstart slow_vend fast_chans fast_vstart fast_vend =
     (let channellist = slow_chans @ fast_chans;
          v_endlist = slow_vend @ fast_vend;
          v_startlist = slow_vstart @ fast_vstart
      in early_config_error slow_chans slow_vend fast_chans fast_vend
         \<or> list_ex (\<lambda>ch. \<not> chan_ok s ch) channellist
         \<or> list_ex (\<lambda>i. i < length v_endlist
                         \<and> \<not> valid_voltage s (channellist ! i) (v_endlist ! i))
               [0..<length channellist]
         \<or> list_ex (\<lambda>i. i < length v_startlist
                         \<and> \<not> valid_voltage s (channellist ! i) (v_startlist ! i))
               [0..<length channellist])"


text \<open>
  Some voltage of a group's list lies outside the validator range of the channel it is
  given for: entry \<open>j\<close> of the list belongs to entry \<open>j\<close> of the group.
\<close>

definition group_voltage_error :: "qdac \<Rightarrow> int list \<Rightarrow> real list \<Rightarrow> bool" where
  "group_voltage_error s chans vs =
     list_ex (\<lambda>j. \<not> valid_voltage s (chans ! j) (vs ! j)) [0..<min (length chans) (length vs)]"

text \<open>
  The configuration errors of a ramp request: a channel in both groups, a number of end
  voltages that differs from the number of channels, a channel number outside
  \<open>1..num_chans\<close>, an end voltage or a supplied start voltage outside the validator range
  of its own channel. A fast-group voltage counts only when the slow group's list of the
  same kind has one entry per slow channel: \<open>ramp_voltages_2d\<close> validates the
  concatenated lists by position, and a short or omitted slow list moves the fast voltages
  onto other channels.
\<close>

definition config_error ::
  "qdac \<Rightarrow> int list \<Rightarrow> real list \<Rightarrow> real list \<Rightarrow> int list \<Rightarrow> real list \<Rightarrow> real list \<Rightarrow> bool" where
  "config_error s slow_chans slow_vstart slow_vend fast_chans fast_vstart fast_vend =
     (early_config_error slow_chans slow_vend fast_chans fast_vend
      \<or> list_ex (\<lambda>ch. \<not> chan_ok s ch) (slow_chans @ fast_chans)
      \<or> group_voltage_error s slow_chans slow_vend
      \<or> (length slow_vend = length slow_chans \<and> group_voltage_error s fast_chans fast_vend)
      \<or> group_voltage_error s slow_chans slow_vstart
      \<or> (length slow_vstart = length slow_chans
          \<and> group_voltage_error s fast_chans fast_vstart))"

text \<open>
  What acquiring generators for the channels \<open>chs\<close> may do between two states: write
  the DC-mode command of some channels \<open>ds\<close>, each with its cached voltage, each a
  holder of a generator or a channel of \<open>chs\<close>; add entries to the generator table for
  channels of \<open>chs\<close> only; and leave the entry of every channel outside \<open>chs\<close> and
  \<open>ds\<close> as it was.
\<close>

definition acquired :: "pyconv \<Rightarrow> int list \<Rightarrow> qdac \<Rightarrow> qdac \<Rightarrow> bool" where
  "acquired py chs s s' =
     (\<exists>ds. sent s' = sent s @ map (\<lambda>d. dc_cmd py d (v_cache s d)) ds
        \<and> set ds \<subseteq> fst ` set (assigned_fgs s) \<union> set chs
        \<and> fst ` set (assigned_fgs s') \<subseteq> fst ` set (assigned_fgs s) \<union> set chs
        \<and> (\<forall>c. c \<notin> set chs \<and> c \<notin> set ds \<longrightarrow>
               map_of (assigned_fgs s') c = map_of (assigned_fgs s) c))"


text \<open>
  The keys of \<open>_assigned_triggers\<close> are all generator numbers: the only insertion in the
  driver, in the programming loop of \<open>ramp_voltages_2d\<close>, uses \<open>fg\<close> numbers.
\<close>

fun is_number :: "trigkey \<Rightarrow> bool" where
  "is_number (FgId f) = True"
| "is_number (GenObj g) = False"

definition number_keys :: "qdac \<Rightarrow> bool" where
  "number_keys s = list_all is_number (map fst (assigned_triggers s))"

text \<open>
  The unit after channels 1 and 2 were ramped together on generators 1 and 2, started by
  trigger 1.
\<close>

definition ramped_pair_qdac :: "string list \<Rightarrow> qdac" where
  "ramped_pair_qdac replies =
     (sample_qdac replies)
       \<lparr>assigned_fgs := [(1, \<lparr>fg = 1, t_end = 2001 / 2\<rparr>), (2, \<lparr>fg = 2, t_end = 2001 / 2\<rparr>)],
        assigned_triggers := [(FgId 1, 1), (FgId 2, 1)]\<rparr>"


section \<open>Properties\<close>

subsection \<open>Sequencing\<close>

lemma andthen_Inl: "m s = (Inl e, s') \<Longrightarrow> andthen m f s = (Inl e, s')"
  by (simp add: andthen_def)

lemma andthen_Inr: "m s = (Inr a, s') \<Longrightarrow> andthen m f s = f a s'"
  by (simp add: andthen_def)

lemma andthen_returns [simp]: "andthen (returns a) f = f a"
  by (rule ext) (simp add: andthen_def returns_def)

lemma andthen_raises [simp]: "andthen (raises e) f = raises e"
  by (rule ext) (simp add: andthen_def raises_def)

lemma andthen_InrE:
  assumes "andthen m f s = (Inr b, t)"
  obtains a s' where "m s = (Inr a, s')" and "f a s' = (Inr b, t)"
  using assms by (auto simp: andthen_def split: prod.splits sum.splits)

subsection \<open>The line protocol\<close>

lemma read_responses_enough:
  "n \<le> length (inbox s) \<Longrightarrow>
   read_responses n s =
     (Inr (), s\<lparr>inbox := drop n (inbox s),
               write_response := (if n = 0 then write_response s else inbox s ! (n - 1))\<rparr>)"
proof (induction n arbitrary: s)
  case 0
  then show ?case by (simp add: returns_def)
next
  case (Suc n)
  then obtain l rest where ib: "inbox s = l # rest" by (cases "inbox s") auto
  let ?s1 = "s\<lparr>inbox := rest, write_response := l\<rparr>"
  have "read_responses (Suc n) s = read_responses n ?s1"
    by (simp add: andthen_def visa_read_def ib)
  also have "\<dots> = (Inr (), ?s1\<lparr>inbox := drop n (inbox ?s1),
               write_response := (if n = 0 then write_response ?s1 else inbox ?s1 ! (n - 1))\<rparr>)"
    using Suc.prems ib by (intro Suc.IH) simp
  finally show ?case using ib by (cases n) auto
qed

lemma write_cmd_enough:
  assumes "ret_code s = 0" and "count_list cmd CHR '';'' < length (inbox s)"
  shows "write_cmd cmd s =
     (Inr (), s\<lparr>sent := sent s @ [cmd],
               inbox := drop (count_list cmd CHR '';'' + 1) (inbox s),
               write_response := inbox s ! count_list cmd CHR '';''\<rparr>)"
proof -
  let ?s1 = "s\<lparr>sent := sent s @ [cmd]\<rparr>"
  have "write_cmd cmd s = read_responses (count_list cmd CHR '';'' + 1) ?s1"
    using assms(1) by (simp add: write_cmd_def andthen_def visa_write_def check_error_def returns_def)
  also have "\<dots> = (Inr (), ?s1\<lparr>inbox := drop (count_list cmd CHR '';'' + 1) (inbox ?s1),
       write_response := inbox ?s1 ! count_list cmd CHR '';''\<rparr>)"
    using assms(2) by (subst read_responses_enough) auto
  finally show ?thesis by simp
qed

text \<open>
  Claim C7. For every command string passed to \<open>write\<close>, when the handle accepts the
  command and the device delivers its replies, the call drains exactly
  \<open>count(';') + 1\<close> reply lines from the transport, one per semicolon-joined
  sub-command, and \<open>_write_response\<close> holds the last of them, the reply to the final
  sub-command.
\<close>

theorem write_drains_replies:
  assumes "ret_code s = 0" and "count_list cmd CHR '';'' < length (inbox s)"
  shows "write_cmd cmd s =
     (Inr (), s\<lparr>sent := sent s @ [cmd],
               inbox := drop (count_list cmd CHR '';'' + 1) (inbox s),
               write_response := inbox s ! count_list cmd CHR '';''\<rparr>)"
  using assms by (rule write_cmd_enough)

theorem write_drains_replies_witness:
  "write_cmd ''wav 1 1 1 0;fun 2 1 100 1 1'' (sample_qdac [''a'', ''b'', ''c'']) =
     (Inr (), (sample_qdac [''a'', ''b'', ''c''])
                \<lparr>sent := [''wav 1 1 1 0;fun 2 1 100 1 1''], inbox := [''c''],
                 write_response := ''b''\<rparr>)"
  using write_drains_replies [of "sample_qdac [''a'', ''b'', ''c'']" "''wav 1 1 1 0;fun 2 1 100 1 1''"]
  by (simp add: sample_qdac_def)

subsection \<open>The HID transport\<close>

lemma send_hid_buffers:
  "data_buffer (snd (send_hid feature_id data d)) = data_buffer d
   \<and> arrivals (snd (send_hid feature_id data d)) = arrivals d"
  by (simp add: send_hid_def Let_def split: sum.splits)

lemma poll_source:
  "poll n d = (Some r, d') \<Longrightarrow> data_buffer d = Some r \<or> Some r \<in> set (arrivals d)"
proof (induction n arbitrary: d)
  case 0
  then show ?case by simp
next
  case (Suc n)
  show ?case
  proof (cases "data_buffer (sleep_tick d)")
    case None
    then have "poll n ((sleep_tick d)\<lparr>data_buffer := None\<rparr>) = (Some r, d')"
      using Suc.prems by (simp add: get_data_buffer_def)
    then have "Some r \<in> set (arrivals (sleep_tick d))"
      using Suc.IH by fastforce
    then show ?thesis
      by (auto simp: sleep_tick_def split: list.splits)
  next
    case (Some p)
    then have "p = r" using Suc.prems by (simp add: get_data_buffer_def)
    then show ?thesis
      using Some by (auto simp: sleep_tick_def split: list.splits option.splits)
  qed
qed

text \<open>
  Claim C8, as amended. \<open>send_hid\<close> accepts a payload of at most \<open>packet_size\<close>
  bytes and raises for a longer one; for a feature id that fits one byte, the packet it
  hands to the device is \<open>packet_size + 1\<close> bytes: the feature-id byte, the payload
  and zero padding. \<open>ask_hid\<close> returns a packet stored by the device's handler with
  its leading byte stripped.
\<close>

theorem send_hid_packet:
  "(int (length data) \<le> packet_size d \<and> 0 \<le> feature_id \<and> feature_id \<le> 255 \<longrightarrow>
      send_hid feature_id data d =
        (if accepts d then Inr () else Inl (RuntimeError CommunicationFailed),
         d\<lparr>output_reports := output_reports d @
            [word_of_int feature_id # data @ replicate (nat (packet_size d) - length data) 0]\<rparr>)
      \<and> length (word_of_int feature_id # data @ replicate (nat (packet_size d) - length data) (0::byte))
          = nat (packet_size d) + 1)
   \<and> (packet_size d < int (length data) \<longrightarrow>
        send_hid feature_id data d = (Inl (ValueError DataTooLong), d))
   \<and> (ask_hid feature_id data d = (Inr r, d') \<longrightarrow>
        (\<exists>response. r = drop 1 response
           \<and> (data_buffer d = Some response \<or> Some response \<in> set (arrivals d))))"
proof (intro conjI impI)
  assume h: "int (length data) \<le> packet_size d \<and> 0 \<le> feature_id \<and> feature_id \<le> 255"
  then have "nat (packet_size d - int (length data)) = nat (packet_size d) - length data"
    by linarith
  then show "send_hid feature_id data d =
        (if accepts d then Inr () else Inl (RuntimeError CommunicationFailed),
         d\<lparr>output_reports := output_reports d @
            [word_of_int feature_id # data @ replicate (nat (packet_size d) - length data) 0]\<rparr>)"
    using h by (simp add: send_hid_def struct_pack_def Let_def)
  show "length (word_of_int feature_id # data @ replicate (nat (packet_size d) - length data) (0::byte))
          = nat (packet_size d) + 1"
  proof -
    have "length data \<le> nat (packet_size d)" using h by linarith
    then show ?thesis by simp
  qed
next
  assume "packet_size d < int (length data)"
  then show "send_hid feature_id data d = (Inl (ValueError DataTooLong), d)"
    by (simp add: send_hid_def Let_def)
next
  assume a: "ask_hid feature_id data d = (Inr r, d')"
  obtain u d1 where s: "send_hid feature_id data d = (Inr u, d1)"
    and p: "(case poll (nat (py_int (5 * timeout d1))) d1 of
               (None, d') \<Rightarrow> (Inl TimeoutError, d')
             | (Some response, d') \<Rightarrow> (Inr (drop 1 response), d')) = (Inr r, d')"
    using a unfolding ask_hid_def by (elim andthen_InrE) (simp add: Let_def)
  from p obtain response where pr: "poll (nat (py_int (5 * timeout d1))) d1 = (Some response, d')"
    and r: "r = drop 1 response"
    by (auto split: prod.splits option.splits)
  have "data_buffer d1 = data_buffer d" "arrivals d1 = arrivals d"
    using send_hid_buffers [of feature_id data d] s by simp_all
  with poll_source [OF pr] r
  show "\<exists>response. r = drop 1 response
           \<and> (data_buffer d = Some response \<or> Some response \<in> set (arrivals d))"
    by auto
qed

theorem send_hid_packet_witness:
  "send_hid 1 [7, 8] sample_hid = (Inr (), sample_hid\<lparr>output_reports := [[1, 7, 8, 0, 0]]\<rparr>)
   \<and> send_hid 1 [1, 2, 3, 4, 5] sample_hid = (Inl (ValueError DataTooLong), sample_hid)
   \<and> fst (ask_hid 1 [7] sample_hid) = Inr [7, 8, 9, 0]"
  using send_hid_packet [of "[7, 8]" sample_hid 1]
    send_hid_packet [of "[1, 2, 3, 4, 5]" sample_hid 1]
    send_hid_packet [of "[7]" sample_hid 1 "[7, 8, 9, 0]"]
  by (simp add: sample_hid_def ask_hid_def andthen_def send_hid_def struct_pack_def py_int_def
      sleep_tick_def get_data_buffer_def eval_nat_numeral)

text \<open>
  With \<open>packet_size = 4\<close>, a payload of four bytes (more than \<open>packet_size - 1\<close>) is
  accepted and the packet sent has five bytes, not four.
\<close>

theorem send_hid_counterexample:
  "packet_size sample_hid = 4
   \<and> send_hid 1 [7, 8, 9, 10] sample_hid =
       (Inr (), sample_hid\<lparr>output_reports := [[1, 7, 8, 9, 10]]\<rparr>)"
  by (simp add: sample_hid_def send_hid_def struct_pack_def)

subsection \<open>The generator pool\<close>

lemma no_generator_available:
  assumes "8 \<le> length (assigned_fgs s)"
    and "list_all (\<lambda>(c, g). clock s + 2 \<le> t_end g) (assigned_fgs s)"
  shows "get_functiongenerator py chan s = (Inl (RuntimeError NoGeneratorAvailable), s)"
proof -
  have "filter (\<lambda>(c, g). t_end g < clock s + 2) (assigned_fgs s) = []"
    using assms(2) by (auto simp: filter_empty_conv list_all_iff)
  then show ?thesis
    using assms(1) by (simp add: get_functiongenerator_def reassign_generator_def Let_def)
qed

text \<open>
  Claim C2. When all 8 generators are assigned and none has an end time within the
  2-second horizon of the current time, requesting a generator raises the
  resource-exhaustion error at once: nothing is written, the clock does not advance (no
  sleep) and the bookkeeping is as before.
\<close>

theorem generator_exhaustion:
  assumes "8 \<le> length (assigned_fgs s)"
    and "list_all (\<lambda>(c, g). clock s + 2 \<le> t_end g) (assigned_fgs s)"
  shows "get_functiongenerator py chan s = (Inl (RuntimeError NoGeneratorAvailable), s)"
  using assms by (rule no_generator_available)

theorem generator_exhaustion_witness:
  "get_functiongenerator sample_py 9 (busy_qdac []) =
     (Inl (RuntimeError NoGeneratorAvailable), busy_qdac [])"
  using generator_exhaustion [of "busy_qdac []" sample_py 9]
  by (simp add: busy_qdac_def sample_qdac_def Generator_def)

subsection \<open>Frame rules\<close>

lemma preservesD: "preserves K m \<Longrightarrow> m s = (r, s') \<Longrightarrow> K s' = K s"
  by (auto simp: preserves_def dest: spec [of _ s])

lemma preserves_returns [simp]: "preserves K (returns a)"
  by (simp add: preserves_def returns_def)

lemma preserves_raises [simp]: "preserves K (raises e)"
  by (simp add: preserves_def raises_def)

lemma preserves_andthen:
  assumes "preserves K m" and "\<And>a. preserves K (f a)"
  shows "preserves K (andthen m f)"
  unfolding preserves_def
proof
  fix s
  obtain r s1 where m: "m s = (r, s1)" by (cases "m s")
  have k1: "K s1 = K s" using assms(1) m by (rule preservesD)
  show "K (snd (andthen m f s)) = K s"
  proof (cases r)
    case (Inl e)
    then show ?thesis using m k1 by (simp add: andthen_def)
  next
    case (Inr a)
    obtain r2 s2 where f: "f a s1 = (r2, s2)" by (cases "f a s1")
    have "K s2 = K s1" using assms(2) f by (rule preservesD)
    then show ?thesis using m k1 Inr f by (simp add: andthen_def)
  qed
qed

lemma preserves_if:
  "preserves K a \<Longrightarrow> preserves K b \<Longrightarrow> preserves K (if c then a else b)"
  by simp

lemma preserves_for_each:
  assumes "\<And>x. preserves K (body x)"
  shows "preserves K (for_each body xs)"
  by (induction xs) (auto intro!: preserves_andthen assms)

lemma preserves_map_each:
  assumes "\<And>x. preserves K (f x)"
  shows "preserves K (map_each f xs)"
  by (induction xs) (auto intro!: preserves_andthen assms)

lemma preserves_fold_each:
  assumes "\<And>x acc. preserves K (body x acc)"
  shows "preserves K (fold_each body xs acc)"
  by (induction xs arbitrary: acc) (auto intro!: preserves_andthen assms)

lemma preserves_via:
  assumes "preserves M m" and "\<And>s. K s = K' (M s)"
  shows "preserves K m"
  using assms by (simp add: preserves_def)

lemma emitsD: "emits P m \<Longrightarrow> m s = (r, s') \<Longrightarrow> \<exists>cs. sent s' = sent s @ cs \<and> list_all P cs"
  by (auto simp: emits_def dest: spec [of _ s])

lemma emits_returns [simp]: "emits P (returns a)"
  by (simp add: emits_def returns_def)

lemma emits_raises [simp]: "emits P (raises e)"
  by (simp add: emits_def raises_def)

lemma emits_andthen:
  assumes "emits P m" and "\<And>a. emits P (f a)"
  shows "emits P (andthen m f)"
  unfolding emits_def
proof
  fix s
  obtain r s1 where m: "m s = (r, s1)" by (cases "m s")
  obtain cs where c1: "sent s1 = sent s @ cs" "list_all P cs"
    using emitsD [OF assms(1) m] by auto
  show "\<exists>cs. sent (snd (andthen m f s)) = sent s @ cs \<and> list_all P cs"
  proof (cases r)
    case (Inl e)
    then show ?thesis using m c1 by (auto simp: andthen_def)
  next
    case (Inr a)
    obtain r2 s2 where f: "f a s1 = (r2, s2)" by (cases "f a s1")
    obtain ds where "sent s2 = sent s1 @ ds" "list_all P ds"
      using emitsD [OF assms(2) f] by auto
    then have "sent s2 = sent s @ (cs @ ds) \<and> list_all P (cs @ ds)"
      using c1 by simp
    then show ?thesis using m Inr f by (auto simp: andthen_def)
  qed
qed

lemma emits_for_each:
  assumes "\<And>x. emits P (body x)"
  shows "emits P (for_each body xs)"
  by (induction xs) (auto intro!: emits_andthen assms)

lemma emits_map_each:
  assumes "\<And>x. emits P (f x)"
  shows "emits P (map_each f xs)"
  by (induction xs) (auto intro!: emits_andthen assms)

lemma emits_nothing:
  assumes "preserves sent m"
  shows "emits P m"
  using assms by (simp add: emits_def preserves_def)

lemma preserves_check_error [simp]: "preserves K (check_error code)"
  by (simp add: check_error_def)

lemma read_responses_off: "preserves off_transport (read_responses n)"
proof (induction n)
  case 0
  show ?case by simp
next
  case (Suc n)
  have "preserves off_transport (\<lambda>s. read_responses n (s\<lparr>write_response := line\<rparr>))" for line
    using Suc by (simp add: preserves_def off_transport_def)
  moreover have "preserves off_transport visa_read"
    by (simp add: preserves_def visa_read_def off_transport_def split: list.splits)
  ultimately show ?case
    by (auto intro!: preserves_andthen)
qed

lemma read_responses_sent: "preserves sent (read_responses n)"
proof (induction n)
  case 0
  show ?case by simp
next
  case (Suc n)
  have "preserves sent (\<lambda>s. read_responses n (s\<lparr>write_response := line\<rparr>))" for line
    using Suc by (simp add: preserves_def)
  moreover have "preserves sent visa_read"
    by (simp add: preserves_def visa_read_def split: list.splits)
  ultimately show ?case
    by (auto intro!: preserves_andthen)
qed

lemma visa_write_off: "preserves off_transport (visa_write c)"
  by (simp add: preserves_def visa_write_def off_transport_def)

lemma write_cmd_off: "preserves off_transport (write_cmd c)"
  unfolding write_cmd_def
  by (intro preserves_andthen read_responses_off visa_write_off preserves_check_error)

lemma write_cmd_sent: "sent (snd (write_cmd c s)) = sent s @ [c]"
proof -
  let ?n = "count_list c CHR '';'' + 1"
  let ?s1 = "s\<lparr>sent := sent s @ [c]\<rparr>"
  have "preserves sent (andthen (check_error (ret_code s)) (\<lambda>_. read_responses ?n))"
    by (intro preserves_andthen read_responses_sent preserves_check_error)
  then have "sent (snd (andthen (check_error (ret_code s)) (\<lambda>_. read_responses ?n) ?s1)) = sent ?s1"
    unfolding preserves_def by blast
  moreover have "write_cmd c s = andthen (check_error (ret_code s)) (\<lambda>_. read_responses ?n) ?s1"
    by (simp only: write_cmd_def andthen_def [of "visa_write c"] visa_write_def prod.case sum.case)
  ultimately show ?thesis by simp
qed

lemma write_cmd_emits: "P c \<Longrightarrow> emits P (write_cmd c)"
  by (simp add: emits_def write_cmd_sent)

lemma preserves_mask:
  assumes "preserves M m" and "\<And>s. K (M s) = K s"
  shows "preserves K m"
  unfolding preserves_def
proof
  fix s
  have "K (snd (m s)) = K (M (snd (m s)))" by (simp add: assms(2))
  also have "\<dots> = K (M s)" using assms(1) by (simp add: preserves_def)
  finally show "K (snd (m s)) = K s" by (simp add: assms(2))
qed

lemma preserves_pair:
  "preserves K1 m \<Longrightarrow> preserves K2 m \<Longrightarrow> preserves (\<lambda>s. (K1 s, K2 s)) m"
  by (simp add: preserves_def)

lemma off_pool_transport: "off_pool (off_transport s) = off_pool s"
  by (simp add: off_pool_def off_transport_def)

lemma off_cache_transport: "off_cache (off_transport s) = off_cache s"
  by (simp add: off_cache_def off_transport_def)

lemma write_cmd_off_pool: "preserves off_pool (write_cmd c)"
  by (rule preserves_mask [OF write_cmd_off]) (rule off_pool_transport)

lemma write_cmd_off_cache: "preserves off_cache (write_cmd c)"
  by (rule preserves_mask [OF write_cmd_off]) (rule off_cache_transport)

lemma visa_read_off: "preserves off_transport visa_read"
  by (simp add: preserves_def visa_read_def off_transport_def split: list.splits)

lemma v_get_off: "preserves off_cache (v_get py chan)"
  by (simp add: preserves_def v_get_def andthen_def visa_write_def visa_read_def off_cache_def
      off_transport_def split: list.splits option.splits)

lemma v_get_sent:
  "sent (snd (v_get py chan s)) = sent s @ [''set '' @ str_int chan]"
  by (simp add: v_get_def andthen_def visa_write_def visa_read_def
      split: list.splits option.splits)

lemma v_get_emits: "P (''set '' @ str_int chan) \<Longrightarrow> emits P (v_get py chan)"
  by (simp add: emits_def v_get_sent)

lemma reassign_generator_off: "preserves off_pool (reassign_generator py chan av)"
proof -
  have "preserves off_pool (andthen (write_cmd c) (\<lambda>_. returns f))" for c and f :: int
    by (intro preserves_andthen write_cmd_off_pool preserves_returns)
  then have "off_pool (snd (andthen (write_cmd c) (\<lambda>_. returns f) s)) = off_pool s"
    for c s and f :: int
    by (simp add: preserves_def)
  then show ?thesis
    by (simp add: preserves_def reassign_generator_def Let_def off_pool_def off_transport_def
        split: list.splits option.splits)
qed

lemma get_functiongenerator_off: "preserves off_pool (get_functiongenerator py chan)"
proof -
  have "off_pool (snd (reassign_generator py chan av s)) = off_pool s" for av s
    using reassign_generator_off by (simp add: preserves_def)
  then show ?thesis
    by (simp add: preserves_def get_functiongenerator_def Let_def off_pool_def off_transport_def
        split: list.splits)
qed

lemma check_and_acquire_off: "preserves off_pool (check_and_acquire py chan)"
proof -
  have "preserves off_pool (andthen (get_functiongenerator py chan) (\<lambda>_. returns ()))"
    by (intro preserves_andthen get_functiongenerator_off preserves_returns)
  then show ?thesis
    by (simp add: preserves_def check_and_acquire_def)
qed

lemma emits_at:
  assumes "emits P m" and "sent t = sent (s :: qdac)"
  shows "\<exists>cs. sent (snd (m t)) = sent s @ cs \<and> list_all P cs"
  using assms by (simp add: emits_def) metis

lemma reassign_generator_emits: "emits (is_dc py) (reassign_generator py chan av)"
  unfolding emits_def
proof
  fix s
  have w: "emits (is_dc py) (andthen (write_cmd (dc_cmd py ch v)) (\<lambda>_. returns f))"
    for ch v and f :: int
    by (intro emits_andthen write_cmd_emits emits_returns) (auto simp: is_dc_def)
  show "\<exists>cs. sent (snd (reassign_generator py chan av s)) = sent s @ cs \<and> list_all (is_dc py) cs"
  proof (cases av)
    case Nil
    then show ?thesis by (simp add: reassign_generator_def)
  next
    case (Cons oldchan rest)
    show ?thesis
    proof (cases "map_of (assigned_fgs s) oldchan")
      case None
      then show ?thesis using Cons by (simp add: reassign_generator_def)
    next
      case (Some g)
      let ?s2 = "s\<lparr>assigned_fgs :=
                    AList.update chan (Generator (fg g)) (AList.delete oldchan (assigned_fgs s))\<rparr>"
      have "sent ?s2 = sent s" by simp
      from emits_at [OF w this]
      show ?thesis using Cons Some by (simp add: reassign_generator_def Let_def)
    qed
  qed
qed

lemma get_functiongenerator_emits: "emits (is_dc py) (get_functiongenerator py chan)"
  unfolding emits_def
proof
  fix s :: qdac
  let ?ok = "map (\<lambda>(c, g). t_end g)
               (filter (\<lambda>(c, g). t_end g < clock s + 2) (assigned_fgs s))"
  show "\<exists>cs. sent (snd (get_functiongenerator py chan s)) = sent s @ cs \<and> list_all (is_dc py) cs"
  proof (cases "length (assigned_fgs s) < 8")
    case True
    then show ?thesis
      by (simp add: get_functiongenerator_def Let_def split: list.splits)
  next
    case False
    have a: "\<exists>cs. sent (snd (reassign_generator py chan av t)) = sent s @ cs \<and> list_all (is_dc py) cs"
      if "sent t = sent s" for av t
      using emits_at [OF reassign_generator_emits that] .
    show ?thesis
    proof (cases "0 < length ?ok")
      case True
      show ?thesis
        using False True
        by (simp add: get_functiongenerator_def Let_def a)
    next
      case f2: False
      show ?thesis
        using False f2
        by (simp add: get_functiongenerator_def Let_def a)
    qed
  qed
qed

lemma check_and_acquire_emits: "emits (is_dc py) (check_and_acquire py chan)"
proof -
  have "emits (is_dc py) (andthen (get_functiongenerator py chan) (\<lambda>_. returns ()))"
    by (intro emits_andthen get_functiongenerator_emits emits_returns)
  then show ?thesis
    by (simp add: emits_def check_and_acquire_def)
qed

subsection \<open>Validation of a ramp request\<close>

lemma andthen_isl: "isl (fst (m s)) \<Longrightarrow> andthen m f s = (Inl (projl (fst (m s))), snd (m s))"
  by (cases "m s") (auto simp: andthen_def isl_def)

lemma chan_ok_off_pool: "off_pool s' = off_pool s \<Longrightarrow> chan_ok s' = chan_ok s"
proof -
  assume a: "off_pool s' = off_pool s"
  have "num_chans s' = num_chans (off_pool s')" by (simp add: off_pool_def off_transport_def)
  also have "\<dots> = num_chans s" using a by (simp add: off_pool_def off_transport_def)
  finally show ?thesis by (simp add: chan_ok_def fun_eq_iff)
qed

lemma valid_voltage_off_pool: "off_pool s' = off_pool s \<Longrightarrow> valid_voltage s' = valid_voltage s"
proof -
  assume a: "off_pool s' = off_pool s"
  have "v_vals s' = v_vals (off_pool s')" by (simp add: off_pool_def off_transport_def)
  also have "\<dots> = v_vals s" using a by (simp add: off_pool_def off_transport_def)
  finally show ?thesis by (simp add: valid_voltage_def fun_eq_iff)
qed

lemma off_pool_fields:
  assumes "off_pool s' = off_pool s"
  shows "v_cache s' = v_cache s" and "assigned_triggers s' = assigned_triggers s"
    and "syncoutputs s' = syncoutputs s" and "slopes s' = slopes s" and "v_vals s' = v_vals s"
proof -
  have "v_cache (off_pool s') = v_cache (off_pool s)"
    "assigned_triggers (off_pool s') = assigned_triggers (off_pool s)"
    "syncoutputs (off_pool s') = syncoutputs (off_pool s)"
    "slopes (off_pool s') = slopes (off_pool s)"
    "v_vals (off_pool s') = v_vals (off_pool s)"
    using assms by simp_all
  then show "v_cache s' = v_cache s" and "assigned_triggers s' = assigned_triggers s"
    and "syncoutputs s' = syncoutputs s" and "slopes s' = slopes s" and "v_vals s' = v_vals s"
    by (simp_all add: off_pool_def off_transport_def)
qed

lemma acquire_loop_rejects:
  "list_ex (\<lambda>ch. \<not> chan_ok s ch) chs \<Longrightarrow> isl (fst (for_each (check_and_acquire py) chs s))"
proof (induction chs arbitrary: s)
  case Nil
  then show ?case by simp
next
  case (Cons c cs)
  obtain r s1 where step: "check_and_acquire py c s = (r, s1)"
    by (cases "check_and_acquire py c s")
  have off: "off_pool s1 = off_pool s"
    using check_and_acquire_off step by (rule preservesD)
  show ?case
  proof (cases r)
    case (Inl e)
    then show ?thesis using step by (simp add: andthen_def)
  next
    case (Inr u)
    then have "chan_ok s c"
      using step by (auto simp: check_and_acquire_def split: if_splits)
    then have "list_ex (\<lambda>ch. \<not> chan_ok s ch) cs" using Cons.prems by simp
    then have "list_ex (\<lambda>ch. \<not> chan_ok s1 ch) cs"
      using chan_ok_off_pool [OF off] by simp
    then have "isl (fst (for_each (check_and_acquire py) cs s1))" by (rule Cons.IH)
    then show ?thesis using step Inr by (simp add: andthen_def)
  qed
qed

lemma validate_at_state: "snd (validate_at chs vs i s) = s"
  by (simp add: validate_at_def v_validate_def)

lemma validate_loop_state: "snd (for_each (validate_at chs vs) ixs s) = s"
proof -
  have "preserves (\<lambda>s. s) (for_each (validate_at chs vs) ixs)"
    by (intro preserves_for_each) (simp add: preserves_def validate_at_state)
  then show ?thesis by (simp add: preserves_def)
qed

lemma validate_loop_rejects:
  "list_ex (\<lambda>i. \<not> (i < length vs \<and> valid_voltage s (chs ! i) (vs ! i))) ixs \<Longrightarrow>
   isl (fst (for_each (validate_at chs vs) ixs s))"
proof (induction ixs)
  case Nil
  then show ?case by simp
next
  case (Cons i ixs)
  obtain r where step: "validate_at chs vs i s = (r, s)"
    using validate_at_state [of chs vs i s] by (cases "validate_at chs vs i s") simp
  show ?case
  proof (cases r)
    case (Inl e)
    then show ?thesis using step by (simp add: andthen_def)
  next
    case (Inr u)
    then have "i < length vs \<and> valid_voltage s (chs ! i) (vs ! i)"
      using step by (auto simp: validate_at_def v_validate_def split: if_splits)
    then have "isl (fst (for_each (validate_at chs vs) ixs s))"
      using Cons by simp
    then show ?thesis using step Inr by (simp add: andthen_def)
  qed
qed

lemma warn_off_pool: "preserves off_pool (warn w)"
  by (simp add: preserves_def warn_def off_pool_def off_transport_def)

lemma validate_at_preserves: "preserves K (validate_at chs vs i)"
  by (simp add: preserves_def validate_at_state)

lemma ramp_validate_off:
  "preserves off_pool (ramp_validate py slow_chans fast_chans v_startlist v_endlist step_length)"
  unfolding ramp_validate_def Let_def
  by (intro preserves_andthen preserves_if preserves_for_each preserves_returns preserves_raises
      warn_off_pool check_and_acquire_off validate_at_preserves)

lemma warn_emits: "emits P (warn w)"
  by (simp add: emits_def warn_def)

lemma validate_at_emits: "emits P (validate_at chs vs i)"
  by (rule emits_nothing) (rule validate_at_preserves)

lemma emits_if: "emits P a \<Longrightarrow> emits P b \<Longrightarrow> emits P (if c then a else b)"
  by simp

lemma ramp_validate_emits:
  "emits (is_dc py) (ramp_validate py slow_chans fast_chans v_startlist v_endlist step_length)"
  unfolding ramp_validate_def Let_def
  by (intro emits_andthen emits_if emits_for_each emits_returns emits_raises
      warn_emits check_and_acquire_emits validate_at_emits)

lemma warn_andthen: "andthen (warn w) f s = f () (s\<lparr>warnings := warnings s @ [w]\<rparr>)"
  by (simp add: andthen_def warn_def)

lemma ramp_validate_early:
  assumes "early_config_error slow_chans slow_vend fast_chans fast_vend"
  shows "ramp_validate py slow_chans fast_chans v_startlist (slow_vend @ fast_vend) step_length s =
     (Inl (ValueError (if list_ex (\<lambda>ch. ch \<in> set fast_chans) slow_chans
                       then ChannelInBothGroups else VoltageCountMismatch)),
      if step_length < 1 / 1000 then s\<lparr>warnings := warnings s @ [StepLengthTooShort]\<rparr> else s)"
  using assms
  by (auto simp: ramp_validate_def Let_def early_config_error_def warn_andthen raises_def)

lemma ramp_validate_rejects:
  assumes "positional_config_error s slow_chans slow_vstart slow_vend fast_chans fast_vstart fast_vend"
  shows "isl (fst (ramp_validate py slow_chans fast_chans (slow_vstart @ fast_vstart)
                     (slow_vend @ fast_vend) step_length s))"
proof (cases "early_config_error slow_chans slow_vend fast_chans fast_vend")
  case True
  then show ?thesis by (simp add: ramp_validate_early)
next
  case False
  let ?chs = "slow_chans @ fast_chans"
  let ?ve = "slow_vend @ fast_vend"
  let ?vs = "slow_vstart @ fast_vstart"
  let ?s0 = "if step_length < 1 / 1000 then s\<lparr>warnings := warnings s @ [StepLengthTooShort]\<rparr> else s"
  let ?tail = "\<lambda>s1. andthen (for_each (validate_at ?chs ?ve) [0..<length ?chs])
                      (\<lambda>_. if ?vs \<noteq> [] then for_each (validate_at ?chs ?vs) [0..<length ?chs]
                            else returns ()) s1"
  have off0: "off_pool ?s0 = off_pool s" by (simp add: off_pool_def off_transport_def)
  have eq: "ramp_validate py slow_chans fast_chans ?vs ?ve step_length s =
              andthen (for_each (check_and_acquire py) ?chs) (\<lambda>_. ?tail) ?s0"
    using False
    by (auto simp: ramp_validate_def Let_def early_config_error_def warn_andthen)
  obtain r1 s1 where acq: "for_each (check_and_acquire py) ?chs ?s0 = (r1, s1)"
    by (cases "for_each (check_and_acquire py) ?chs ?s0")
  have off1: "off_pool s1 = off_pool s"
    using preservesD [OF preserves_for_each [of off_pool "check_and_acquire py"] acq]
      check_and_acquire_off off0 by simp
  show ?thesis
  proof (cases r1)
    case (Inl e)
    then show ?thesis using eq acq by (simp add: andthen_def)
  next
    case (Inr u)
    have ok: "\<not> list_ex (\<lambda>ch. \<not> chan_ok s ch) ?chs"
    proof
      assume "list_ex (\<lambda>ch. \<not> chan_ok s ch) ?chs"
      then have "list_ex (\<lambda>ch. \<not> chan_ok ?s0 ch) ?chs"
        using chan_ok_off_pool [OF off0] by simp
      then have "isl (fst (for_each (check_and_acquire py) ?chs ?s0))"
        by (rule acquire_loop_rejects)
      then show False using acq Inr by simp
    qed
    have vv: "valid_voltage s1 = valid_voltage s" by (rule valid_voltage_off_pool [OF off1])
    obtain r2 where ve: "for_each (validate_at ?chs ?ve) [0..<length ?chs] s1 = (r2, s1)"
      using validate_loop_state [of ?chs ?ve "[0..<length ?chs]" s1]
      by (cases "for_each (validate_at ?chs ?ve) [0..<length ?chs] s1") simp
    show ?thesis
    proof (cases r2)
      case (Inl e)
      then show ?thesis using eq acq Inr ve by (simp add: andthen_def)
    next
      case r2: (Inr u2)
      have "\<not> list_ex (\<lambda>i. \<not> (i < length ?ve \<and> valid_voltage s1 (?chs ! i) (?ve ! i)))
                 [0..<length ?chs]"
        using validate_loop_rejects [of ?ve s1 ?chs "[0..<length ?chs]"] ve r2 by auto
      then have "\<not> list_ex (\<lambda>i. i < length ?ve \<and> \<not> valid_voltage s (?chs ! i) (?ve ! i))
                 [0..<length ?chs]"
        by (auto simp: vv list_ex_iff)
      then have bad: "list_ex (\<lambda>i. i < length ?vs \<and> \<not> valid_voltage s (?chs ! i) (?vs ! i))
                 [0..<length ?chs]"
        using assms False ok by (simp add: positional_config_error_def Let_def)
      then have ne: "?vs \<noteq> []" by (auto simp: list_ex_iff)
      have "list_ex (\<lambda>i. \<not> (i < length ?vs \<and> valid_voltage s1 (?chs ! i) (?vs ! i)))
                 [0..<length ?chs]"
        using bad by (auto simp: vv list_ex_iff)
      then have "isl (fst (for_each (validate_at ?chs ?vs) [0..<length ?chs] s1))"
        by (rule validate_loop_rejects)
      then show ?thesis using eq acq Inr ve r2 ne by (simp add: andthen_def)
    qed
  qed
qed

subsection \<open>Concrete runs of the validation\<close>

lemma str_nat_digit: "n < 10 \<Longrightarrow> str_nat n = [''0123456789'' ! n]"
  by (simp add: str_nat.simps)

lemma str_int_digit: "0 \<le> i \<Longrightarrow> i < 10 \<Longrightarrow> str_int i = [''0123456789'' ! nat i]"
  by (simp add: str_int_def str_nat_digit)

lemma dc_cmd_sample_1: "dc_cmd sample_py 1 0 = ''set 1 0.000000;wav 1 0 0 0''"
  by (simp add: dc_cmd_def sample_py_def str_int_digit)

lemma acquire_from_idle_pool:
  "get_functiongenerator sample_py 9 (idle_pool_qdac [''a'', ''b'']) =
     (Inr 1, (idle_pool_qdac [''a'', ''b''])
        \<lparr>assigned_fgs := map (\<lambda>i. (i, \<lparr>fg = i, t_end = 0\<rparr>)) [2, 3, 4, 5, 6, 7, 8]
                           @ [(9, Generator 1)],
         sent := [''set 1 0.000000;wav 1 0 0 0''], inbox := [], write_response := ''b''\<rparr>)"
proof -
  let ?s2 = "(idle_pool_qdac [''a'', ''b''])
        \<lparr>assigned_fgs := map (\<lambda>i. (i, \<lparr>fg = i, t_end = 0\<rparr>)) [2, 3, 4, 5, 6, 7, 8]
                           @ [(9, Generator 1)]\<rparr>"
  have w: "write_cmd ''set 1 0.000000;wav 1 0 0 0'' ?s2 =
      (Inr (), ?s2\<lparr>sent := [''set 1 0.000000;wav 1 0 0 0''], inbox := [], write_response := ''b''\<rparr>)"
    by (subst write_cmd_enough) (simp_all add: idle_pool_qdac_def sample_qdac_def)
  have "reassign_generator sample_py 9 [1, 2, 3, 4, 5, 6, 7, 8] (idle_pool_qdac [''a'', ''b'']) =
      (Inr 1, ?s2\<lparr>sent := [''set 1 0.000000;wav 1 0 0 0''], inbox := [], write_response := ''b''\<rparr>)"
    apply (simp add: reassign_generator_def Let_def idle_pool_qdac_def sample_qdac_def dc_cmd_sample_1)
    apply (rule trans [OF andthen_Inr])
     apply (rule w [unfolded idle_pool_qdac_def sample_qdac_def, simplified])
    apply (simp add: returns_def)
    done
  then show ?thesis
    by (simp add: get_functiongenerator_def Let_def idle_pool_qdac_def sample_qdac_def)
qed

lemma validate_bad_voltage_fresh:
  "ramp_validate sample_py [] [1] [] [100] (1 / 1000) (sample_qdac []) =
     (Inl (ValueError NotInValidatorRange), (sample_qdac [])\<lparr>assigned_fgs := [(1, Generator 1)]\<rparr>)"
  by (simp add: ramp_validate_def Let_def andthen_def returns_def raises_def
      check_and_acquire_def chan_ok_def get_functiongenerator_def fgs_def Generator_def
      validate_at_def v_validate_def valid_voltage_def sample_qdac_def)

lemma andthen_InrI: "m s = (Inr a, s') \<Longrightarrow> f a s' = r \<Longrightarrow> andthen m f s = r"
  by (simp add: andthen_def)

lemma ms_of_Some: "int_times_1000 py x = Some n \<Longrightarrow> ms_of py x s = (Inr n, s)"
  by (simp add: ms_of_def returns_def)

lemma ms_of_None: "int_times_1000 py x = None \<Longrightarrow> ms_of py x s = (Inl OverflowError, s)"
  by (simp add: ms_of_def raises_def)

lemma seconds_of_Some: "div_1000 py n = Some x \<Longrightarrow> seconds_of py n s = (Inr x, s)"
  by (simp add: seconds_of_def returns_def)

lemma sample_ms: "int_times_1000 sample_py (1 / 1000) = Some 1"
  by (simp add: sample_py_def py_int_def)

lemma ramp_overflow:
  assumes "int_times_1000 py step_length = None"
  shows "ramp_voltages_2d py slow_chans slow_vstart slow_vend fast_chans fast_vstart fast_vend
           step_length slow_steps fast_steps s = (Inl OverflowError, s)"
  unfolding ramp_voltages_2d_def Let_def
  by (rule andthen_Inl) (rule ms_of_None [OF assms])

lemma ramp_validation_fails:
  assumes "int_times_1000 py step_length = Some n"
    and "ramp_validate py slow_chans fast_chans (slow_vstart @ fast_vstart)
           (slow_vend @ fast_vend) step_length s = (Inl e, s')"
  shows "ramp_voltages_2d py slow_chans slow_vstart slow_vend fast_chans fast_vstart fast_vend
           step_length slow_steps fast_steps s = (Inl e, s')"
  unfolding ramp_voltages_2d_def Let_def
  by (rule andthen_InrI, rule ms_of_Some [OF assms(1)], rule andthen_Inl, rule assms(2))

lemma run_bad_voltage_fresh:
  "ramp_voltages_2d sample_py [] [] [] [1] [] [100] (1 / 1000) 1 10 (sample_qdac []) =
     (Inl (ValueError NotInValidatorRange), (sample_qdac [])\<lparr>assigned_fgs := [(1, Generator 1)]\<rparr>)"
  by (rule ramp_validation_fails [OF sample_ms]) (simp add: validate_bad_voltage_fresh)

lemma validate_bad_voltage_idle_pool:
  "ramp_validate sample_py [] [9] [] [100] (1 / 1000) (idle_pool_qdac [''a'', ''b'']) =
     (Inl (ValueError NotInValidatorRange),
      (idle_pool_qdac [''a'', ''b''])
        \<lparr>assigned_fgs := map (\<lambda>i. (i, \<lparr>fg = i, t_end = 0\<rparr>)) [2, 3, 4, 5, 6, 7, 8]
                           @ [(9, Generator 1)],
         sent := [''set 1 0.000000;wav 1 0 0 0''], inbox := [], write_response := ''b''\<rparr>)"
proof -
  have c: "check_and_acquire sample_py 9 (idle_pool_qdac [''a'', ''b'']) =
     (Inr (), (idle_pool_qdac [''a'', ''b''])
        \<lparr>assigned_fgs := map (\<lambda>i. (i, \<lparr>fg = i, t_end = 0\<rparr>)) [2, 3, 4, 5, 6, 7, 8]
                           @ [(9, Generator 1)],
         sent := [''set 1 0.000000;wav 1 0 0 0''], inbox := [], write_response := ''b''\<rparr>)"
  proof -
    have "chan_ok (idle_pool_qdac [''a'', ''b'']) 9"
      "9 \<notin> fst ` set (assigned_fgs (idle_pool_qdac [''a'', ''b'']))"
      by (simp_all add: chan_ok_def idle_pool_qdac_def sample_qdac_def)
    then show ?thesis
      unfolding check_and_acquire_def
      by (simp only: if_True if_False not_True_eq_False not_False_eq_True)
         (rule andthen_InrI, rule acquire_from_idle_pool, simp add: returns_def)
  qed
  have v: "validate_at [9] [100] 0 s = (Inl (ValueError NotInValidatorRange), s)"
    if "v_vals s 9 = (- 999 / 100, 999 / 100)" for s
    using that by (simp add: validate_at_def v_validate_def valid_voltage_def)
  show ?thesis
    unfolding ramp_validate_def Let_def
    apply (simp add: for_each.simps)
    apply (rule andthen_InrI)
     apply (rule andthen_InrI)
      apply (rule c)
     apply (simp add: returns_def)
    apply (rule andthen_Inl)
    apply (rule andthen_Inl)
    apply (rule v)
    apply (simp add: idle_pool_qdac_def sample_qdac_def)
    done
qed

lemma run_overlap_fresh:
  "ramp_voltages_2d sample_py [1] [] [0] [1] [] [0] (1 / 1000) 1 10 (sample_qdac [])
       = (Inl (ValueError ChannelInBothGroups), sample_qdac [])"
proof -
  have "early_config_error [1] [0] [1] [0]" by (simp add: early_config_error_def)
  from ramp_validate_early [OF this, of sample_py "[]" "1 / 1000" "sample_qdac []"]
  show ?thesis
    by (intro ramp_validation_fails [OF sample_ms]) simp
qed


subsection \<open>What the acquisition loop does\<close>

lemma snd_andthen_returns: "snd (andthen m (\<lambda>_. returns a) s) = snd (m s)"
  by (cases "m s") (auto simp: andthen_def returns_def split: sum.splits)

lemma write_cmd_fields:
  "assigned_fgs (snd (write_cmd c s)) = assigned_fgs s"
  "v_cache (snd (write_cmd c s)) = v_cache s"
proof -
  have "preserves assigned_fgs (write_cmd c)"
    by (rule preserves_mask [where M = off_transport], rule write_cmd_off)
       (simp add: off_transport_def)
  then show "assigned_fgs (snd (write_cmd c s)) = assigned_fgs s" by (simp add: preserves_def)
  have "preserves v_cache (write_cmd c)"
    by (rule preserves_mask [where M = off_transport], rule write_cmd_off)
       (simp add: off_transport_def)
  then show "v_cache (snd (write_cmd c s)) = v_cache s" by (simp add: preserves_def)
qed

lemma keys_update: "fst ` set (AList.update k v al) = insert k (fst ` set al)"
proof -
  have "dom (map_of (AList.update k v al)) = insert k (dom (map_of al))"
    by (simp add: update_conv')
  then show ?thesis by (simp add: dom_map_of_conv_image_fst)
qed

lemma keys_delete: "fst ` set (AList.delete k al) = fst ` set al - {k}"
proof -
  have "dom (map_of (AList.delete k al)) = dom (map_of al) - {k}"
    by (simp add: delete_conv')
  then show ?thesis by (simp add: dom_map_of_conv_image_fst)
qed

lemma acquired_refl: "acquired py chs s s"
  unfolding acquired_def by (rule exI [of _ "[]"]) simp

lemma acquired_same:
  assumes "sent s' = sent s" and "assigned_fgs s' = assigned_fgs s"
  shows "acquired py chs s s'"
  unfolding acquired_def using assms by (intro exI [of _ "[]"]) simp

lemma acquired_new:
  assumes "sent s' = sent s" and "assigned_fgs s' = AList.update chan g (assigned_fgs s)"
  shows "acquired py [chan] s s'"
  unfolding acquired_def using assms
  by (intro exI [of _ "[]"]) (auto simp: keys_update update_conv')

lemma acquired_taken:
  assumes "sent s' = sent s @ [dc_cmd py d (v_cache s d)]"
    and "map_of (assigned_fgs s) d = Some gold"
    and "assigned_fgs s' = AList.update chan gnew (AList.delete d (assigned_fgs s))"
  shows "acquired py [chan] s s'"
proof -
  have "d \<in> fst ` set (assigned_fgs s)"
    using assms(2) by (metis domI dom_map_of_conv_image_fst)
  then show ?thesis
    unfolding acquired_def using assms
    by (intro exI [of _ "[d]"]) (auto simp: keys_update keys_delete update_conv' delete_conv')
qed

lemma reassign_generator_acquired:
  "acquired py [chan] s (snd (reassign_generator py chan av s))"
proof (cases av)
  case Nil
  then show ?thesis by (simp add: reassign_generator_def acquired_refl)
next
  case (Cons d rest)
  show ?thesis
  proof (cases "map_of (assigned_fgs s) d")
    case None
    then show ?thesis using Cons by (simp add: reassign_generator_def acquired_refl)
  next
    case (Some g)
    let ?s2 = "s\<lparr>assigned_fgs :=
                  AList.update chan (Generator (fg g)) (AList.delete d (assigned_fgs s))\<rparr>"
    let ?c = "dc_cmd py d (v_cache s d)"
    have run: "snd (reassign_generator py chan av s) = snd (write_cmd ?c ?s2)"
      using Cons Some by (simp add: reassign_generator_def Let_def snd_andthen_returns)
    show ?thesis
      unfolding run
      by (rule acquired_taken [where d = d and gold = g and gnew = "Generator (fg g)"])
         (simp_all add: write_cmd_sent write_cmd_fields Some)
  qed
qed

lemma acquired_shift:
  assumes "acquired py chs t s'" and "sent t = sent s" and "assigned_fgs t = assigned_fgs s"
    and "v_cache t = v_cache s"
  shows "acquired py chs s s'"
  using assms by (simp add: acquired_def)

lemma get_functiongenerator_acquired:
  "acquired py [chan] s (snd (get_functiongenerator py chan s))"
proof (cases "length (assigned_fgs s) < 8")
  case True
  show ?thesis
  proof (cases "filter (\<lambda>f. f \<notin> set (map (\<lambda>(c, g). fg g) (assigned_fgs s))) fgs")
    case Nil
    then show ?thesis using True by (simp add: get_functiongenerator_def acquired_refl)
  next
    case (Cons f rest)
    then show ?thesis using True
      by (simp add: get_functiongenerator_def Let_def del: min_list.simps)
         (rule acquired_new, simp_all)
  qed
next
  case False
  let ?ok = "map (\<lambda>(c, g). t_end g)
               (filter (\<lambda>(c, g). t_end g < clock s + 2) (assigned_fgs s))"
  show ?thesis
  proof (cases "0 < length ?ok")
    case True
    let ?t1 = "min_list ?ok"
    let ?av = "map fst (filter (\<lambda>(c, g). t_end g = ?t1) (assigned_fgs s))"
    let ?s1 = "if clock s < ?t1
               then s\<lparr>warnings := warnings s @ [WaitingForGenerator],
                      clock := clock s + (?t1 - clock s)\<rparr>
               else s"
    have run: "get_functiongenerator py chan s = reassign_generator py chan ?av ?s1"
      using False True by (simp add: get_functiongenerator_def Let_def)
    show ?thesis
      unfolding run
      by (rule acquired_shift [OF reassign_generator_acquired]) simp_all
  next
    case f2: False
    then have run: "get_functiongenerator py chan s = reassign_generator py chan [] s"
      using False by (simp add: get_functiongenerator_def Let_def)
    show ?thesis unfolding run by (rule reassign_generator_acquired)
  qed
qed

lemma check_and_acquire_acquired:
  "acquired py [chan] s (snd (check_and_acquire py chan s))"
  by (simp add: check_and_acquire_def snd_andthen_returns get_functiongenerator_acquired
      acquired_refl)

lemma acquired_trans:
  assumes a: "acquired py [c] s s1" and b: "acquired py cs s1 s2" and v: "v_cache s1 = v_cache s"
  shows "acquired py (c # cs) s s2"
proof -
  obtain ds1 where 1: "sent s1 = sent s @ map (\<lambda>d. dc_cmd py d (v_cache s d)) ds1"
    "set ds1 \<subseteq> fst ` set (assigned_fgs s) \<union> {c}"
    "fst ` set (assigned_fgs s1) \<subseteq> fst ` set (assigned_fgs s) \<union> {c}"
    "\<And>x. x \<noteq> c \<Longrightarrow> x \<notin> set ds1 \<Longrightarrow> map_of (assigned_fgs s1) x = map_of (assigned_fgs s) x"
    using a unfolding acquired_def by auto
  obtain ds2 where 2: "sent s2 = sent s1 @ map (\<lambda>d. dc_cmd py d (v_cache s1 d)) ds2"
    "set ds2 \<subseteq> fst ` set (assigned_fgs s1) \<union> set cs"
    "fst ` set (assigned_fgs s2) \<subseteq> fst ` set (assigned_fgs s1) \<union> set cs"
    "\<And>x. x \<notin> set cs \<Longrightarrow> x \<notin> set ds2 \<Longrightarrow> map_of (assigned_fgs s2) x = map_of (assigned_fgs s1) x"
    using b unfolding acquired_def by auto
  show ?thesis
    unfolding acquired_def
  proof (intro exI [of _ "ds1 @ ds2"] conjI allI impI)
    show "sent s2 = sent s @ map (\<lambda>d. dc_cmd py d (v_cache s d)) (ds1 @ ds2)"
      using 1(1) 2(1) v by simp
    show "set (ds1 @ ds2) \<subseteq> fst ` set (assigned_fgs s) \<union> set (c # cs)"
      using 1(2,3) 2(2) by (simp add: subset_iff) blast
    show "fst ` set (assigned_fgs s2) \<subseteq> fst ` set (assigned_fgs s) \<union> set (c # cs)"
      using 1(3) 2(3) by (simp add: subset_iff) blast
  next
    fix x
    assume "x \<notin> set (c # cs) \<and> x \<notin> set (ds1 @ ds2)"
    then show "map_of (assigned_fgs s2) x = map_of (assigned_fgs s) x"
      using 1(4) [of x] 2(4) [of x] by simp
  qed
qed

lemma acquire_loop_acquired:
  "acquired py chs s (snd (for_each (check_and_acquire py) chs s))"
proof (induction chs arbitrary: s)
  case Nil
  show ?case by (simp add: returns_def acquired_refl)
next
  case (Cons c cs)
  obtain r s1 where step: "check_and_acquire py c s = (r, s1)"
    by (cases "check_and_acquire py c s")
  have a: "acquired py [c] s s1"
    using check_and_acquire_acquired [of py c s] step by simp
  have off: "off_pool s1 = off_pool s"
    using check_and_acquire_off step by (rule preservesD)
  have v: "v_cache s1 = v_cache s" using off_pool_fields(1) [OF off] .
  show ?case
  proof (cases r)
    case (Inl e)
    then have "snd (for_each (check_and_acquire py) (c # cs) s) = s1"
      using step by (simp add: andthen_def)
    moreover have "acquired py (c # cs) s s1"
      using acquired_trans [OF a acquired_refl v] .
    ultimately show ?thesis by simp
  next
    case (Inr u)
    then have "snd (for_each (check_and_acquire py) (c # cs) s)
                 = snd (for_each (check_and_acquire py) cs s1)"
      using step by (simp add: andthen_def)
    moreover have "acquired py (c # cs) s (snd (for_each (check_and_acquire py) cs s1))"
      using acquired_trans [OF a Cons.IH v] .
    ultimately show ?thesis by simp
  qed
qed

subsection \<open>Rejected ramp requests\<close>

text \<open>
  An error in the words of the specification is an error as the validation loops meet it:
  a slow-group voltage sits at its channel's position of the concatenated list, and a
  fast-group voltage does when the slow list before it has one entry per slow channel.
\<close>

lemma positional_slow:
  assumes "group_voltage_error s sc sv"
  shows "list_ex (\<lambda>i. i < length (sv @ fv) \<and> \<not> valid_voltage s ((sc @ fc) ! i) ((sv @ fv) ! i))
           [0..<length (sc @ fc)]"
proof -
  obtain j where j: "j < length sc" "j < length sv" "\<not> valid_voltage s (sc ! j) (sv ! j)"
    using assms by (auto simp: group_voltage_error_def list_ex_iff)
  then have "j < length (sv @ fv) \<and> \<not> valid_voltage s ((sc @ fc) ! j) ((sv @ fv) ! j)"
    by (simp add: nth_append)
  moreover have "j \<in> set [0..<length (sc @ fc)]" using j by simp
  ultimately show ?thesis unfolding list_ex_iff by blast
qed

lemma positional_fast:
  assumes "length sv = length sc" and "group_voltage_error s fc fv"
  shows "list_ex (\<lambda>i. i < length (sv @ fv) \<and> \<not> valid_voltage s ((sc @ fc) ! i) ((sv @ fv) ! i))
           [0..<length (sc @ fc)]"
proof -
  obtain j where j: "j < length fc" "j < length fv" "\<not> valid_voltage s (fc ! j) (fv ! j)"
    using assms(2) by (auto simp: group_voltage_error_def list_ex_iff)
  let ?i = "length sc + j"
  have "?i < length (sv @ fv) \<and> \<not> valid_voltage s ((sc @ fc) ! ?i) ((sv @ fv) ! ?i)"
    using j assms(1) by (simp add: nth_append)
  moreover have "?i \<in> set [0..<length (sc @ fc)]" using j by simp
  ultimately show ?thesis unfolding list_ex_iff by blast
qed

lemma config_error_positional:
  assumes "config_error s slow_chans slow_vstart slow_vend fast_chans fast_vstart fast_vend"
  shows "positional_config_error s slow_chans slow_vstart slow_vend fast_chans fast_vstart fast_vend"
  using assms positional_slow [of s slow_chans slow_vend fast_vend fast_chans]
    positional_fast [of slow_vend slow_chans s fast_chans fast_vend]
    positional_slow [of s slow_chans slow_vstart fast_vstart fast_chans]
    positional_fast [of slow_vstart slow_chans s fast_chans fast_vstart]
  unfolding config_error_def positional_config_error_def Let_def by blast

lemma snd_andthen_quiet:
  assumes "\<And>a. preserves (\<lambda>s. s) (f a)"
  shows "snd (andthen m f s) = snd (m s)"
proof (cases "m s")
  case (Pair r s1)
  show ?thesis
  proof (cases r)
    case (Inl e)
    then show ?thesis using Pair by (simp add: andthen_def)
  next
    case (Inr a)
    have "snd (f a s1) = s1" using assms [of a] by (simp add: preserves_def)
    then show ?thesis using Pair Inr by (simp add: andthen_def)
  qed
qed

lemma ramp_validate_late_state:
  assumes "\<not> early_config_error slow_chans slow_vend fast_chans fast_vend"
  shows "snd (ramp_validate py slow_chans fast_chans v_startlist (slow_vend @ fast_vend)
                step_length s) =
         snd (for_each (check_and_acquire py) (slow_chans @ fast_chans)
                (if step_length < 1 / 1000
                 then s\<lparr>warnings := warnings s @ [StepLengthTooShort]\<rparr> else s))"
proof -
  let ?chs = "slow_chans @ fast_chans"
  let ?ve = "slow_vend @ fast_vend"
  let ?s0 = "if step_length < 1 / 1000 then s\<lparr>warnings := warnings s @ [StepLengthTooShort]\<rparr> else s"
  let ?tail = "\<lambda>u :: unit. andthen (for_each (validate_at ?chs ?ve) [0..<length ?chs])
                      (\<lambda>_. if v_startlist \<noteq> []
                            then for_each (validate_at ?chs v_startlist) [0..<length ?chs]
                            else returns ())"
  have eq: "ramp_validate py slow_chans fast_chans v_startlist ?ve step_length s =
              andthen (for_each (check_and_acquire py) ?chs) ?tail ?s0"
    using assms
    by (auto simp: ramp_validate_def Let_def early_config_error_def warn_andthen)
  have quiet: "preserves (\<lambda>s. s) (?tail u)" for u
    by (intro preserves_andthen preserves_if preserves_for_each preserves_returns
        validate_at_preserves)
  show ?thesis unfolding eq by (rule snd_andthen_quiet) (rule quiet)
qed



subsection \<open>Releasing a slope\<close>

lemma write_cmd_triggers: "preserves assigned_triggers (write_cmd c)"
  by (rule preserves_mask [where M = off_transport], rule write_cmd_off)
     (simp add: off_transport_def)

lemma v_get_triggers: "preserves assigned_triggers (v_get py chan)"
  by (rule preserves_mask [where M = off_cache], rule v_get_off)
     (simp add: off_cache_def off_transport_def)

lemma setsync_triggers: "preserves assigned_triggers (setsync chan sync)"
proof -
  have w: "assigned_triggers (snd (write_cmd c s)) = assigned_triggers s" for c s
    using write_cmd_triggers by (simp add: preserves_def)
  have u: "preserves assigned_triggers
             (\<lambda>s. (Inr (), s\<lparr>syncoutputs := AList.update chan sync (syncoutputs s)\<rparr>))"
    by (simp add: preserves_def)
  have p: "preserves assigned_triggers
     (\<lambda>s. if chan \<in> fst ` set (syncoutputs s) then
                  (let oldsync = sync_cache s chan
                   in if sync \<noteq> oldsync then write_cmd (''syn '' @ str_int oldsync @ '' 0 0 0'') s
                      else (Inr (), s))
                else if sync \<in> snd ` set (syncoutputs s) then
                  (let oldchan = map fst (filter (\<lambda>(ch, sy). sy = sync) (syncoutputs s));
                       s1 = s\<lparr>syncoutputs := AList.delete (hd oldchan) (syncoutputs s)\<rparr>
                   in write_cmd (''syn '' @ str_int sync @ '' 0 0 0'') s1)
                else (Inr (), s))"
    by (simp add: preserves_def Let_def w)
  show ?thesis
    unfolding preserves_def
  proof
    fix s :: qdac
    show "assigned_triggers (snd (setsync chan sync s)) = assigned_triggers s"
      using preserves_andthen [OF p, of "\<lambda>_ s. (Inr (), s\<lparr>syncoutputs := AList.update chan sync (syncoutputs s)\<rparr>)"] u
      by (simp add: setsync_def Let_def w preserves_def)
  qed
qed

lemma sync_set_triggers: "preserves assigned_triggers (sync_set chan v)"
  unfolding sync_set_def
  by (intro preserves_andthen setsync_triggers) (simp_all add: preserves_def)

lemma release_generator_triggers:
  assumes "number_keys s"
  shows "assigned_triggers (release_generator chan s) = assigned_triggers s"
proof -
  have "GenObj g \<notin> fst ` set (assigned_triggers s)" for g
    using assms by (force simp: number_keys_def list_all_iff)
  then show ?thesis
    by (simp add: release_generator_def Let_def split: option.splits)
qed

lemma setslope_inf_triggers:
  assumes "number_keys s"
  shows "assigned_triggers (snd (setslope py chan Inf s)) = assigned_triggers s"
proof (cases "chan_ok s chan")
  case False
  then show ?thesis by (simp add: setslope_def)
next
  case True
  obtain r1 s1 where g: "v_get py chan s = (r1, s1)" by (cases "v_get py chan s")
  have t1: "assigned_triggers s1 = assigned_triggers s"
    using v_get_triggers g by (rule preservesD)
  show ?thesis
  proof (cases r1)
    case (Inl e)
    then show ?thesis using True g t1 by (simp add: setslope_def andthen_def)
  next
    case (Inr v_set)
    obtain r2 s2 where w: "write_cmd (dc_cmd py chan v_set) s1 = (r2, s2)"
      by (cases "write_cmd (dc_cmd py chan v_set) s1")
    have t2: "assigned_triggers s2 = assigned_triggers s1"
      using write_cmd_triggers w by (rule preservesD)
    show ?thesis
    proof (cases r2)
      case (Inl e)
      then show ?thesis using True g Inr w t1 t2 by (simp add: setslope_def andthen_def)
    next
      case r2: (Inr u)
      let ?s3 = "release_generator chan s2"
      have "number_keys s2" using assms t1 t2 by (simp add: number_keys_def)
      then have t3: "assigned_triggers ?s3 = assigned_triggers s2"
        by (rule release_generator_triggers)
      let ?sy = "\<lambda>s. if chan \<in> fst ` set (syncoutputs s) then sync_set chan 0 s else (Inr (), s)"
      obtain r4 s4 where y: "?sy ?s3 = (r4, s4)" by (cases "?sy ?s3")
      have "preserves assigned_triggers ?sy"
        using sync_set_triggers [of chan 0] by (simp add: preserves_def)
      then have t4: "assigned_triggers s4 = assigned_triggers ?s3"
        using y by (rule preservesD)
      show ?thesis
        using True g Inr w r2 y t1 t2 t3 t4
        by (cases r4) (simp_all add: setslope_def andthen_def)
    qed
  qed
qed


lemma setslope_inf_sample_run:
  "setslope sample_py 1 Inf (ramped_pair_qdac [''0'', ''a'', ''b'']) =
     (Inr (), (ramped_pair_qdac [''0'', ''a'', ''b''])
        \<lparr>assigned_fgs := [(1, \<lparr>fg = 1, t_end = 0\<rparr>), (2, \<lparr>fg = 2, t_end = 2001 / 2\<rparr>)],
         sent := [''set 1'', ''set 1 0.000000;wav 1 0 0 0''], inbox := [],
         write_response := ''b''\<rparr>)"
proof -
  let ?s = "ramped_pair_qdac [''0'', ''a'', ''b'']"
  let ?s1 = "?s\<lparr>sent := [''set 1''], inbox := [''a'', ''b'']\<rparr>"
  let ?s2 = "?s\<lparr>sent := [''set 1'', ''set 1 0.000000;wav 1 0 0 0''], inbox := [],
                write_response := ''b''\<rparr>"
  let ?s3 = "?s2\<lparr>assigned_fgs := [(1, \<lparr>fg = 1, t_end = 0\<rparr>), (2, \<lparr>fg = 2, t_end = 2001 / 2\<rparr>)]\<rparr>"
  have ok: "chan_ok ?s 1"
    by (simp add: chan_ok_def ramped_pair_qdac_def sample_qdac_def)
  have "to_float sample_py ''0'' = Some 0"
    by (simp add: sample_py_def digits_value_def)
  moreover have "(\<lambda>_. 0 :: real)(1 :: int := 0) = (\<lambda>_. 0)" by auto
  ultimately have g: "v_get sample_py 1 ?s = (Inr 0, ?s1)"
    by (simp add: v_get_def andthen_def visa_write_def visa_read_def str_int_digit
        ramped_pair_qdac_def sample_qdac_def)
  have w: "write_cmd (dc_cmd sample_py 1 0) ?s1 = (Inr (), ?s2)"
    unfolding dc_cmd_sample_1
    by (subst write_cmd_enough) (simp_all add: ramped_pair_qdac_def sample_qdac_def)
  have r: "release_generator 1 ?s2 = ?s3"
    by (simp add: release_generator_def Let_def ramped_pair_qdac_def sample_qdac_def)
  have y: "(if 1 \<in> fst ` set (syncoutputs ?s3) then sync_set 1 0 ?s3 else (Inr (), ?s3)) = (Inr (), ?s3)"
    by (simp add: ramped_pair_qdac_def sample_qdac_def)
  have f: "?s3\<lparr>slopes := AList.delete 1 (slopes ?s3)\<rparr> =
      ?s\<lparr>assigned_fgs := [(1, \<lparr>fg = 1, t_end = 0\<rparr>), (2, \<lparr>fg = 2, t_end = 2001 / 2\<rparr>)],
         sent := [''set 1'', ''set 1 0.000000;wav 1 0 0 0''], inbox := [],
         write_response := ''b''\<rparr>"
    by (simp add: ramped_pair_qdac_def sample_qdac_def)
  have "setslope sample_py 1 Inf ?s =
      andthen (v_get sample_py 1) (\<lambda>v_set.
           andthen (write_cmd (dc_cmd sample_py 1 v_set)) (\<lambda>_.
           andthen (\<lambda>s. (Inr (), release_generator 1 s)) (\<lambda>_.
           andthen (\<lambda>s. if 1 \<in> fst ` set (syncoutputs s) then sync_set 1 0 s
                         else (Inr (), s)) (\<lambda>_ s.
             (Inr (), s\<lparr>slopes := AList.delete 1 (slopes s)\<rparr>))))) ?s"
    using ok by (simp add: setslope_def)
  also have "\<dots> = (Inr (), ?s3\<lparr>slopes := AList.delete 1 (slopes ?s3)\<rparr>)"
    apply (rule andthen_InrI, rule g)
    apply (rule andthen_InrI, rule w)
    apply (rule andthen_InrI [where a = "()" and s' = "?s3"])
     apply (simp add: r)
    apply (rule andthen_InrI, rule y)
    apply (rule refl)
    done
  finally show ?thesis unfolding f .
qed

text \<open>
  Claim C3 says that setting the slope to \<open>'Inf'\<close> drops any trigger that had been
  bound to the channel's generator. The code does not: \<open>_setslope\<close> calls
  \<open>self._assigned_triggers.pop(fg)\<close> with the \<open>Generator\<close> object, the keys are
  generator numbers, and the \<open>KeyError\<close> is swallowed. Whenever the keys are numbers, a
  trigger bound to the generator of the channel is still bound to it after
  \<open>_setslope(chan, 'Inf')\<close>, whether the call returns or raises. In the sample run the
  call returns, the end time of generator 1 is 0, and trigger 1 is still bound to it.
\<close>

theorem setslope_inf_keeps_trigger:
  assumes "number_keys s"
    and "map_of (assigned_fgs s) chan = Some g"
    and "map_of (assigned_triggers s) (FgId (fg g)) = Some t"
  shows "map_of (assigned_triggers (snd (setslope py chan Inf s))) (FgId (fg g)) = Some t"
  using assms(3) setslope_inf_triggers [OF assms(1), of py chan] by simp

theorem setslope_inf_keeps_trigger_witness:
  "number_keys (ramped_pair_qdac [''0'', ''a'', ''b''])
   \<and> map_of (assigned_fgs (ramped_pair_qdac [''0'', ''a'', ''b''])) 1
       = Some \<lparr>fg = 1, t_end = 2001 / 2\<rparr>
   \<and> map_of (assigned_triggers (ramped_pair_qdac [''0'', ''a'', ''b''])) (FgId 1) = Some 1
   \<and> fst (setslope sample_py 1 Inf (ramped_pair_qdac [''0'', ''a'', ''b''])) = Inr ()
   \<and> map_of (assigned_fgs (snd (setslope sample_py 1 Inf (ramped_pair_qdac [''0'', ''a'', ''b''])))) 1
       = Some \<lparr>fg = 1, t_end = 0\<rparr>
   \<and> map_of (assigned_triggers
         (snd (setslope sample_py 1 Inf (ramped_pair_qdac [''0'', ''a'', ''b''])))) (FgId 1)
       = Some 1"
proof -
  let ?s = "ramped_pair_qdac [''0'', ''a'', ''b'']"
  have a: "number_keys ?s"
    by (simp add: number_keys_def ramped_pair_qdac_def)
  have b: "map_of (assigned_fgs ?s) 1 = Some \<lparr>fg = 1, t_end = 2001 / 2\<rparr>"
    by (simp add: ramped_pair_qdac_def)
  have c: "map_of (assigned_triggers ?s) (FgId (fg \<lparr>fg = 1, t_end = 2001 / 2\<rparr>)) = Some 1"
    by (simp add: ramped_pair_qdac_def)
  have d: "fst (setslope sample_py 1 Inf ?s) = Inr ()"
    and e: "map_of (assigned_fgs (snd (setslope sample_py 1 Inf ?s))) 1 = Some \<lparr>fg = 1, t_end = 0\<rparr>"
    by (simp_all add: setslope_inf_sample_run)
  show ?thesis
    using setslope_inf_keeps_trigger [OF a b c, of sample_py] a b c d e by simp
qed

end
